theory Spec2Isabelle
  imports Main "HOL-Library.Log_Nat" "HOL-Library.Multiset" "HOL-Library.AList"
begin

section \<open>Errors\<close>

text \<open>
  \<open>fit\<close> and \<open>predict\<close> have no error taxonomy of their own: an exception is either
  raised by a collaborator (the forward computation, the loss, the optimizer, a metric,
  the random generators) or by the Python and tensor operations of the two methods
  themselves. The first kind carries the collaborator's own failure value \<open>'e\<close>; the
  second kind is one constructor per exception the two methods can raise.
\<close>

datatype 'e error =
    Collaborator 'e
  | UnboundLocalError
  | IndexError
  | ShapeError
  | DtypeError
  | ZeroDivisionError

definition bindE :: "'x + 'a \<Rightarrow> ('a \<Rightarrow> 'x + 'b) \<Rightarrow> 'x + 'b" where
  "bindE m f = (case m of Inl e \<Rightarrow> Inl e | Inr v \<Rightarrow> f v)"

definition collab :: "'e + 'a \<Rightarrow> 'e error + 'a" where
  "collab m = (case m of Inl e \<Rightarrow> Inl (Collaborator e) | Inr v \<Rightarrow> Inr v)"

section \<open>Python floats\<close>

text \<open>
  A Python float is an IEEE 754 binary64 number. A finite float is modelled by the
  rational number it denotes, and every arithmetic operation computes the exact
  rational result and rounds it to 53 significant bits, ties to even
  (\<open>round_binary64\<close>). The exponent range is not bounded: infinities, NaN, overflow and
  subnormal results are outside the model. None of them can arise in the computation
  of the validation split, whose operands lie between \<open>2 ^ -53\<close> and the sample count.
\<close>

type_synonym pyfloat = rat

definition pow2 :: "int \<Rightarrow> rat" where
  "pow2 k = (if 0 \<le> k then 2 ^ nat k else 1 / 2 ^ nat (- k))"

definition ilog2 :: "rat \<Rightarrow> int" where
  "ilog2 a = (let (n, d) = quotient_of a; k = bitlen n - bitlen d
              in if pow2 k \<le> a then k else k - 1)"

definition round_half_even :: "rat \<Rightarrow> int" where
  "round_half_even r = (let m = \<lfloor>r\<rfloor>; d = r - of_int m
     in if d < 1 / 2 \<or> (d = 1 / 2 \<and> even m) then m else m + 1)"

definition round_binary64 :: "rat \<Rightarrow> pyfloat" where
  "round_binary64 q =
     (if q = 0 then 0
      else let e = ilog2 \<bar>q\<bar> - 52
           in sgn q * of_int (round_half_even (\<bar>q\<bar> * pow2 (- e))) * pow2 e)"

definition fadd :: "pyfloat \<Rightarrow> pyfloat \<Rightarrow> pyfloat" where
  "fadd a b = round_binary64 (a + b)"

definition fsub :: "pyfloat \<Rightarrow> pyfloat \<Rightarrow> pyfloat" where
  "fsub a b = round_binary64 (a - b)"

definition fmul :: "pyfloat \<Rightarrow> pyfloat \<Rightarrow> pyfloat" where
  "fmul a b = round_binary64 (a * b)"

definition fdiv :: "pyfloat \<Rightarrow> pyfloat \<Rightarrow> pyfloat" where
  "fdiv a b = round_binary64 (a / b)"

definition float_of_int :: "int \<Rightarrow> pyfloat" where
  "float_of_int n = round_binary64 (of_int n)"

definition int_of_float :: "pyfloat \<Rightarrow> int" where
  "int_of_float q = (if 0 \<le> q then \<lfloor>q\<rfloor> else \<lceil>q\<rceil>)"

section \<open>Tensors\<close>

text \<open>
  A tensor of \<open>N\<close> samples is the list of its \<open>N\<close> rows (each row flattened, in
  row-major order) together with the shape of one row, \<open>x.size()[1:]\<close>, and the type of
  its elements. The leading dimension \<open>x.size()[0]\<close> is the number of rows. Tensors
  without a leading dimension are excluded by the type; devices are not modelled.
\<close>

datatype dtype = Float32 | Float64 | Int64

record tensor =
  dtype :: dtype
  trailing :: "nat list"
  rows :: "pyfloat list list"

definition size0 :: "tensor \<Rightarrow> nat" where
  "size0 x = length (rows x)"

text \<open>\<open>torch.zeros(shape)\<close>, of torch's default element type.\<close>

definition zeros :: "nat \<Rightarrow> nat list \<Rightarrow> tensor" where
  "zeros n tr =
     \<lparr>dtype = Float32, trailing = tr, rows = replicate n (replicate (prod_list tr) 0)\<rparr>"

text \<open>\<open>a[start:stop]\<close> on an index array, for bounds that are not negative.\<close>

definition slice :: "'a list \<Rightarrow> nat \<Rightarrow> nat \<Rightarrow> 'a list" where
  "slice xs start stop = take (stop - start) (drop start xs)"

text \<open>
  Python's reading of a slice bound \<open>k\<close> on a sequence of length \<open>n\<close>: a negative
  bound counts from the end, and every bound is clamped to the sequence.
\<close>

definition slice_pos :: "nat \<Rightarrow> int \<Rightarrow> nat" where
  "slice_pos n k = (if k < 0 then nat (max 0 (int n + k)) else min n (nat k))"

definition slice_to :: "tensor \<Rightarrow> int \<Rightarrow> tensor" where
  "slice_to x k = x\<lparr>rows := take (slice_pos (size0 x) k) (rows x)\<rparr>"

definition slice_from :: "tensor \<Rightarrow> int \<Rightarrow> tensor" where
  "slice_from x k = x\<lparr>rows := drop (slice_pos (size0 x) k) (rows x)\<rparr>"

text \<open>\<open>x[batch_idxs]\<close> with a tensor of indices: an index past the end raises.\<close>

definition index_select :: "tensor \<Rightarrow> nat list \<Rightarrow> 'e error + tensor" where
  "index_select x idxs =
     (if list_all (\<lambda>i. i < size0 x) idxs
      then Inr (x\<lparr>rows := map (\<lambda>i. rows x ! i) idxs\<rparr>)
      else Inl IndexError)"

fun scatter_rows :: "'a list \<Rightarrow> nat list \<Rightarrow> 'a list \<Rightarrow> 'a list" where
  "scatter_rows dst (i # idxs) (r # rs) = scatter_rows (dst[i := r]) idxs rs"
| "scatter_rows dst _ _ = dst"

text \<open>
  Broadcasting, as torch's index assignment does it. The shape of the source is its
  row count followed by its row shape. Leading dimensions of size one are dropped from
  it; what is left must have no more dimensions than the target shape and, aligned with
  it at the right, each of its dimensions must be the target's or one
  (\<open>expandable\<close>). A dimension of size one is then repeated to the target's size
  (\<open>broadcast_flat\<close>, on the row-major data).
\<close>

definition strip_ones :: "nat list \<Rightarrow> nat list" where
  "strip_ones shape = dropWhile (\<lambda>d. d = 1) shape"

definition expandable :: "nat list \<Rightarrow> nat list \<Rightarrow> bool" where
  "expandable src tgt \<longleftrightarrow>
     length src \<le> length tgt \<and>
     list_all2 (\<lambda>s t. s = t \<or> s = 1) src (drop (length tgt - length src) tgt)"

definition pad_ones :: "nat list \<Rightarrow> nat \<Rightarrow> nat list" where
  "pad_ones src n = replicate (n - length src) 1 @ src"

definition chunk_rows :: "nat \<Rightarrow> nat \<Rightarrow> 'a list \<Rightarrow> 'a list list" where
  "chunk_rows k w flat = map (\<lambda>j. take w (drop (j * w) flat)) [0 ..< k]"

fun broadcast_flat :: "nat list \<Rightarrow> nat list \<Rightarrow> 'a list \<Rightarrow> 'a list" where
  "broadcast_flat (s # ss) (t # ts) d =
     (let parts = map (broadcast_flat ss ts) (chunk_rows s (prod_list ss) d)
      in if s = t then concat parts else concat (replicate t (concat parts)))"
| "broadcast_flat _ _ d = d"

definition broadcastable :: "tensor \<Rightarrow> nat \<Rightarrow> nat list \<Rightarrow> bool" where
  "broadcastable v k ty \<longleftrightarrow> expandable (strip_ones (size0 v # trailing v)) (k # ty)"

definition broadcast_rows :: "tensor \<Rightarrow> nat \<Rightarrow> nat list \<Rightarrow> pyfloat list list" where
  "broadcast_rows v k ty =
     chunk_rows k (prod_list ty)
       (broadcast_flat (pad_ones (strip_ones (size0 v # trailing v)) (Suc (length ty)))
          (k # ty) (concat (rows v)))"

text \<open>
  \<open>y_pred[batch_idxs] = y_batch_pred\<close>: the source must have the destination's
  element type and be broadcastable to one row of the destination's row shape per
  index; row \<open>k\<close> of the broadcast source is then copied to row \<open>batch_idxs[k]\<close> of the
  destination.
\<close>

definition index_put :: "tensor \<Rightarrow> nat list \<Rightarrow> tensor \<Rightarrow> 'e error + tensor" where
  "index_put y idxs v =
     (if dtype v \<noteq> dtype y then Inl DtypeError
      else if \<not> broadcastable v (length idxs) (trailing y) then Inl ShapeError
      else if \<not> list_all (\<lambda>i. i < size0 y) idxs then Inl IndexError
      else Inr (y\<lparr>rows := scatter_rows (rows y) idxs
                  (broadcast_rows v (length idxs) (trailing y))\<rparr>))"

section \<open>Batch partitioning\<close>

text \<open>
  Modelled from the spec: \<open>make_batches\<close> is imported from the package's \<open>utils\<close>
  module, which is not among the sources. The spec describes it as: given the total
  sample count and the batch size, an ordered sequence of half-open index ranges
  covering all samples, \<open>ceil(N/B)\<close> of them, each of length at most \<open>B\<close>, the final
  range possibly smaller. Range \<open>i\<close> is therefore \<open>(i * B, min N ((i + 1) * B))\<close>.
  The spec says nothing about a batch size of zero.
\<close>

definition make_batches :: "nat \<Rightarrow> nat \<Rightarrow> (nat \<times> nat) list" where
  "make_batches n batch_size =
     map (\<lambda>i. (i * batch_size, min n ((i + 1) * batch_size)))
       [0 ..< (n + batch_size - 1) div batch_size]"

section \<open>Collaborators and state\<close>

text \<open>
  The collaborators are parameters of the model. \<open>'w\<close> is everything they own and
  mutate: the module's parameters and buffers, the optimizer's state, the autograd
  graph, torch's random generator. \<open>'g\<close> is the state of numpy's global random
  generator, which \<open>fit\<close> seeds and shuffles with; the other collaborators are taken
  not to draw from it. Every collaborator may fail with a value of \<open>'e\<close>. The forward
  computation receives the module's mode flag \<open>self.training\<close>, which only
  \<open>self.train()\<close> and \<open>self.eval()\<close> write.
\<close>

record ('w, 'g, 'e) env =
  np_random_seed :: "int \<Rightarrow> 'e + 'g"
  np_random_shuffle :: "'g \<Rightarrow> nat list \<Rightarrow> nat list \<times> 'g"
  torch_manual_seed :: "int \<Rightarrow> 'w \<Rightarrow> 'e + 'w"
  optimizer :: "'w \<Rightarrow> 'e + 'w"
  zero_grad :: "'w \<Rightarrow> 'e + 'w"
  forward :: "bool \<Rightarrow> 'w \<Rightarrow> tensor \<Rightarrow> 'e + tensor \<times> 'w"
  loss :: "'w \<Rightarrow> tensor \<Rightarrow> tensor \<Rightarrow> 'e + pyfloat \<times> 'w"
  backward :: "'w \<Rightarrow> 'e + 'w"
  step :: "'w \<Rightarrow> 'e + 'w"

text \<open>
  The history \<open>calls\<close> is an observation of the run and is read by no operation: one
  entry per completed gradient step of \<open>fit\<close> (the epoch, the mode flag the forward
  pass ran under, the sample indices of the batch, the batch's loss value) and one per
  forward pass of \<open>predict\<close> (the mode flag, the sample indices, the output).
\<close>

datatype event =
    is_TrainStep: TrainStep (ev_epoch: int) (ev_mode: bool) (ev_idxs: "nat list")
      (ev_loss: pyfloat)
  | is_PredictStep: PredictStep (ev_mode: bool) (ev_idxs: "nat list") (ev_out: tensor)

record ('w, 'g) state =
  training :: bool
  world :: 'w
  np_rng :: 'g
  calls :: "event list"

text \<open>
  A \<open>Log\<close> is a dictionary from metric names to floats. It is kept as an association
  list in insertion order: \<open>log[k] = v\<close> is \<open>AList.update k v log\<close>, and \<open>map_of log k\<close>
  looks a key up.
\<close>

type_synonym log = "(string \<times> pyfloat) list"

type_synonym 'e metric = "string \<times> (tensor \<Rightarrow> tensor \<Rightarrow> 'e + pyfloat)"

text \<open>
  Modelled from the spec: \<open>add_metrics_to_log\<close> is imported from the package's
  \<open>utils\<close> module, which is not among the sources. The spec describes it as
  evaluating each metric against the targets and storing the results under
  \<open>train_*\<close> and \<open>val_*\<close> keys of the epoch's log; the key is the prefix followed
  by the metric's name.
\<close>

fun add_metrics_to_log ::
  "log \<Rightarrow> 'e metric list \<Rightarrow> tensor \<Rightarrow> tensor \<Rightarrow> string \<Rightarrow> 'e error + log" where
  "add_metrics_to_log lg [] y_true y_pred prefix = Inr lg"
| "add_metrics_to_log lg ((name, metric) # ms) y_true y_pred prefix =
     (case collab (metric y_true y_pred) of
        Inl e \<Rightarrow> Inl e
      | Inr q \<Rightarrow>
          add_metrics_to_log (AList.update (prefix @ name) q lg) ms y_true y_pred prefix)"

section \<open>The prediction loop\<close>

text \<open>
  The local \<open>y_pred\<close> is bound by the first iteration only: it is \<open>None\<close> until then,
  and reading it unbound raises \<open>UnboundLocalError\<close>.
\<close>

fun predict_batches ::
  "('w, 'g, 'e) env \<Rightarrow> tensor \<Rightarrow> nat \<Rightarrow> nat list \<Rightarrow> (nat \<times> nat \<times> nat) list \<Rightarrow>
   tensor option \<Rightarrow> ('w, 'g) state \<Rightarrow> 'e error + tensor option \<times> ('w, 'g) state" where
  "predict_batches env x n train_idxs [] y_pred s = Inr (y_pred, s)"
| "predict_batches env x n train_idxs ((batch_i, batch_start, batch_end) # batches) y_pred s =
     (let batch_idxs = slice train_idxs batch_start batch_end in
      case index_select x batch_idxs of
        Inl e \<Rightarrow> Inl e
      | Inr x_batch \<Rightarrow>
     (case collab (forward env (training s) (world s) x_batch) of
        Inl e \<Rightarrow> Inl e
      | Inr (y_batch_pred, w) \<Rightarrow>
     (case (if batch_i = 0 then Some (zeros n (trailing y_batch_pred)) else y_pred) of
        None \<Rightarrow> Inl UnboundLocalError
      | Some y_pred0 \<Rightarrow>
     (case index_put y_pred0 batch_idxs y_batch_pred of
        Inl e \<Rightarrow> Inl e
      | Inr y_pred1 \<Rightarrow>
          predict_batches env x n train_idxs batches (Some y_pred1)
            (s\<lparr>world := w,
               calls := calls s @ [PredictStep (training s) batch_idxs y_batch_pred]\<rparr>)))))"

definition predict ::
  "('w, 'g, 'e) env \<Rightarrow> tensor \<Rightarrow> nat \<Rightarrow> ('w, 'g) state \<Rightarrow>
   'e error + tensor \<times> ('w, 'g) state" where
  "predict env x batch_size s =
     (let n = size0 x;
          train_idxs = [0 ..< n];
          batches = make_batches n batch_size;
          s0 = s\<lparr>training := False\<rparr>
      in bindE (predict_batches env x n train_idxs (enumerate 0 batches) None s0)
           (\<lambda>(y_pred, s1).
              case y_pred of
                None \<Rightarrow> Inl UnboundLocalError
              | Some r \<Rightarrow> Inr (r, s1)))"

section \<open>The training loop\<close>

text \<open>
  Output only (the progress bar and the epoch banner under \<open>verbose\<close>) is left out:
  it reads the log and writes none of the state below.
\<close>

text \<open>Lines 69 to 76: the validation data.\<close>

definition split_index :: "nat \<Rightarrow> pyfloat \<Rightarrow> int" where
  "split_index n validation_split =
     int_of_float (fmul (float_of_int (int n)) (fsub 1 validation_split))"

definition prepare_validation ::
  "tensor \<Rightarrow> tensor \<Rightarrow> pyfloat \<Rightarrow> (tensor option \<times> tensor option) option \<Rightarrow>
   tensor \<times> tensor \<times> tensor option \<times> tensor option" where
  "prepare_validation x y validation_split validation_data =
     (case validation_data of
        Some (val_x, val_y) \<Rightarrow> (x, y, val_x, val_y)
      | None \<Rightarrow>
          if validation_split \<noteq> 0 \<and> 0 < validation_split \<and> validation_split < 1
          then let split = split_index (size0 x) validation_split
               in (slice_to x split, slice_to y split,
                   Some (slice_from x split), Some (slice_from y split))
          else (x, y, None, None))"

text \<open>Lines 100 to 114: one batch. The accumulator is \<open>(n_run, epoch_loss, log)\<close>.\<close>

fun train_batch ::
  "('w, 'g, 'e) env \<Rightarrow> tensor \<Rightarrow> tensor \<Rightarrow> int \<Rightarrow> nat list \<Rightarrow> nat \<times> nat \<Rightarrow>
   int \<times> pyfloat \<times> log \<Rightarrow> ('w, 'g) state \<Rightarrow>
   'e error + (int \<times> pyfloat \<times> log) \<times> ('w, 'g) state" where
  "train_batch env x y t train_idxs (batch_start, batch_end) (n_run, epoch_loss, lg) s =
     (let batch_idxs = slice train_idxs batch_start batch_end in
      bindE (index_select x batch_idxs) (\<lambda>x_batch.
      bindE (index_select y batch_idxs) (\<lambda>y_batch.
      bindE (collab (zero_grad env (world s))) (\<lambda>w1.
      bindE (collab (forward env (training s) w1 x_batch)) (\<lambda>(y_batch_pred, w2).
      bindE (collab (loss env w2 y_batch_pred y_batch)) (\<lambda>(batch_loss, w3).
      bindE (collab (backward env w3)) (\<lambda>w4.
      bindE (collab (step env w4)) (\<lambda>w5.
        let n_run1 = n_run + (int batch_end - int batch_start);
            epoch_loss1 = fadd epoch_loss batch_loss
        in if n_run1 = 0 then Inl ZeroDivisionError
           else Inr ((n_run1, epoch_loss1,
                      AList.update ''train_loss''
                        (fdiv epoch_loss1 (float_of_int n_run1)) lg),
                     s\<lparr>world := w5,
                       calls := calls s @
                         [TrainStep t (training s) batch_idxs batch_loss]\<rparr>)))))))))"

fun run_batches ::
  "('w, 'g, 'e) env \<Rightarrow> tensor \<Rightarrow> tensor \<Rightarrow> int \<Rightarrow> nat list \<Rightarrow> (nat \<times> nat) list \<Rightarrow>
   int \<times> pyfloat \<times> log \<Rightarrow> ('w, 'g) state \<Rightarrow>
   'e error + (int \<times> pyfloat \<times> log) \<times> ('w, 'g) state" where
  "run_batches env x y t train_idxs [] acc s = Inr (acc, s)"
| "run_batches env x y t train_idxs (b # batches) acc s =
     (case train_batch env x y t train_idxs b acc s of
        Inl e \<Rightarrow> Inl e
      | Inr (acc1, s1) \<Rightarrow> run_batches env x y t train_idxs batches acc1 s1)"

text \<open>
  Lines 117 to 123: the metrics of one epoch. The first call of \<open>add_metrics_to_log\<close>
  passes no prefix; the default is taken to be \<open>train_\<close>, the key the spec gives for
  the training metrics.
\<close>

definition run_metrics ::
  "('w, 'g, 'e) env \<Rightarrow> tensor \<Rightarrow> tensor \<Rightarrow> tensor option \<Rightarrow> tensor option \<Rightarrow> nat \<Rightarrow>
   'e metric list \<Rightarrow> log \<Rightarrow> ('w, 'g) state \<Rightarrow> 'e error + log \<times> ('w, 'g) state" where
  "run_metrics env x y val_x val_y batch_size metrics lg s =
     (if metrics \<noteq> [] then
        bindE (predict env x batch_size s) (\<lambda>(y_train_pred, s1).
        bindE (add_metrics_to_log lg metrics y y_train_pred ''train_'') (\<lambda>lg1.
          case (val_x, val_y) of
            (Some vx, Some vy) \<Rightarrow>
              bindE (predict env vx batch_size s1) (\<lambda>(y_val_pred, s2).
              bindE (add_metrics_to_log lg1 metrics vy y_val_pred ''val_'') (\<lambda>lg2.
                Inr (lg2, s2)))
          | _ \<Rightarrow> Inr (lg1, s1)))
      else Inr (lg, s))"

text \<open>
  Lines 85 to 126: one epoch. \<open>train_idxs\<close> is the index array that
  \<open>np.random.shuffle\<close> permutes in place; it lives across the epochs.
\<close>

definition fit_epoch ::
  "('w, 'g, 'e) env \<Rightarrow> tensor \<Rightarrow> tensor \<Rightarrow> tensor option \<Rightarrow> tensor option \<Rightarrow> nat \<Rightarrow>
   bool \<Rightarrow> 'e metric list \<Rightarrow> int \<Rightarrow> nat list \<Rightarrow> ('w, 'g) state \<Rightarrow>
   'e error + (nat list \<times> log) \<times> ('w, 'g) state" where
  "fit_epoch env x y val_x val_y batch_size shuffle metrics t train_idxs s =
     (let (train_idxs1, g) =
            (if shuffle then np_random_shuffle env (np_rng s) train_idxs
             else (train_idxs, np_rng s));
          s0 = s\<lparr>np_rng := g\<rparr>;
          batches = make_batches (size0 x) batch_size
      in bindE (run_batches env x y t train_idxs1 batches (0, 0, []) s0)
           (\<lambda>((n_run, epoch_loss, lg), s1).
         bindE (run_metrics env x y val_x val_y batch_size metrics lg s1)
           (\<lambda>(lg1, s2). Inr ((train_idxs1, lg1), s2))))"

fun fit_epochs ::
  "('w, 'g, 'e) env \<Rightarrow> tensor \<Rightarrow> tensor \<Rightarrow> tensor option \<Rightarrow> tensor option \<Rightarrow> nat \<Rightarrow>
   bool \<Rightarrow> 'e metric list \<Rightarrow> int list \<Rightarrow> nat list \<Rightarrow> log list \<Rightarrow> ('w, 'g) state \<Rightarrow>
   'e error + log list \<times> ('w, 'g) state" where
  "fit_epochs env x y val_x val_y batch_size shuffle metrics [] train_idxs logs s =
     Inr (logs, s)"
| "fit_epochs env x y val_x val_y batch_size shuffle metrics (t # ts) train_idxs logs s =
     (case fit_epoch env x y val_x val_y batch_size shuffle metrics t train_idxs s of
        Inl e \<Rightarrow> Inl e
      | Inr ((train_idxs1, lg), s1) \<Rightarrow>
          fit_epochs env x y val_x val_y batch_size shuffle metrics ts train_idxs1
            (logs @ [lg]) s1)"

text \<open>Lines 65 to 67: \<open>if seed and seed >= 0\<close>; a seed of \<open>None\<close> or \<open>0\<close> is falsy.\<close>

definition seed_generators ::
  "('w, 'g, 'e) env \<Rightarrow> int option \<Rightarrow> ('w, 'g) state \<Rightarrow> 'e error + ('w, 'g) state" where
  "seed_generators env seed s =
     (case seed of
        None \<Rightarrow> Inr s
      | Some k \<Rightarrow>
          if k \<noteq> 0 \<and> 0 \<le> k
          then bindE (collab (np_random_seed env k)) (\<lambda>g.
               bindE (collab (torch_manual_seed env k (world s))) (\<lambda>w.
                 Inr (s\<lparr>np_rng := g, world := w\<rparr>)))
          else Inr s)"

definition fit ::
  "('w, 'g, 'e) env \<Rightarrow> tensor \<Rightarrow> tensor \<Rightarrow> nat \<Rightarrow> int \<Rightarrow> pyfloat \<Rightarrow>
   (tensor option \<times> tensor option) option \<Rightarrow> bool \<Rightarrow> int \<Rightarrow> int option \<Rightarrow>
   'e metric list \<Rightarrow> ('w, 'g) state \<Rightarrow> 'e error + log list \<times> ('w, 'g) state" where
  "fit env x y batch_size epochs validation_split validation_data shuffle initial_epoch
       seed metrics s =
     bindE (seed_generators env seed s) (\<lambda>s0.
       case prepare_validation x y validation_split validation_data of
         (x1, y1, val_x, val_y) \<Rightarrow>
     bindE (collab (optimizer env (world s0))) (\<lambda>w.
       let s1 = s0\<lparr>world := w, training := True\<rparr>;
           n = size0 x1;
           train_idxs = [0 ..< n]
       in fit_epochs env x1 y1 val_x val_y batch_size shuffle metrics
            [initial_epoch .. epochs - 1] train_idxs [] s1))"

section \<open>Observations of a run\<close>

text \<open>
  The batches of sample indices that the gradient steps of epoch \<open>t\<close> processed, in
  the order of processing, read off a history.
\<close>

definition train_batches_of :: "int \<Rightarrow> event list \<Rightarrow> nat list list" where
  "train_batches_of t evs = map ev_idxs (filter (\<lambda>ev. is_TrainStep ev \<and> ev_epoch ev = t) evs)"

text \<open>
  The index array of each of the next \<open>k\<close> epochs: lines 83 and 88 to 89 of \<open>fit\<close>
  alone, from the generator state \<open>g\<close> and the array \<open>train_idxs\<close> the first of these
  epochs starts with.
\<close>

fun shuffle_orders ::
  "('w, 'g, 'e) env \<Rightarrow> bool \<Rightarrow> nat \<Rightarrow> 'g \<Rightarrow> nat list \<Rightarrow> nat list list" where
  "shuffle_orders env shuffle 0 g train_idxs = []"
| "shuffle_orders env shuffle (Suc k) g train_idxs =
     (let (train_idxs1, g1) =
            (if shuffle then np_random_shuffle env g train_idxs else (train_idxs, g))
      in train_idxs1 # shuffle_orders env shuffle k g1 train_idxs1)"

text \<open>
  Batch ranges that follow one another: the first starts at \<open>p\<close>, each is non-empty
  and ends where the next starts, none goes past \<open>n\<close>. \<open>chain_end\<close> is where the last
  one ends.
\<close>

fun chain :: "nat \<Rightarrow> nat \<Rightarrow> (nat \<times> nat) list \<Rightarrow> bool" where
  "chain p n [] = True"
| "chain p n ((a, e) # bs) = (a = p \<and> p < e \<and> e \<le> n \<and> chain e n bs)"

fun chain_end :: "nat \<Rightarrow> (nat \<times> nat) list \<Rightarrow> nat" where
  "chain_end p [] = p"
| "chain_end p ((a, e) # bs) = chain_end e bs"

section \<open>A small concrete run\<close>

text \<open>
  Collaborators for concrete runs: the model is the identity, the loss of every batch
  is one half, the optimizer counts its steps, and the generator rotates the index
  array by one more than its state.
\<close>

definition demo_env :: "(nat, nat, string) env" where
  "demo_env = \<lparr>
     np_random_seed = (\<lambda>k. Inr (nat k)),
     np_random_shuffle = (\<lambda>g xs. (rotate (Suc g) xs, Suc g)),
     torch_manual_seed = (\<lambda>k w. Inr w),
     optimizer = Inr,
     zero_grad = Inr,
     forward = (\<lambda>mode w x. Inr (x, w)),
     loss = (\<lambda>w p y. Inr (1 / 2, w)),
     backward = Inr,
     step = (\<lambda>w. Inr (Suc w)) \<rparr>"

text \<open>
  A module that returns only the first row of the batch it is given: where a batch has
  more than one sample, the output has fewer rows than the batch.
\<close>

definition demo_env_first :: "(nat, nat, string) env" where
  "demo_env_first = demo_env\<lparr>forward := (\<lambda>mode w x. Inr (x\<lparr>rows := take 1 (rows x)\<rparr>, w))\<rparr>"

definition demo_x :: tensor where
  "demo_x = \<lparr>dtype = Float32, trailing = [1], rows = [[1], [2], [3]]\<rparr>"

definition demo_empty :: tensor where
  "demo_empty = \<lparr>dtype = Float32, trailing = [1], rows = []\<rparr>"

definition demo_x10 :: tensor where
  "demo_x10 = \<lparr>dtype = Float32, trailing = [1], rows = map (\<lambda>i. [of_nat i]) [0 ..< 10]\<rparr>"

definition demo_state :: "(nat, nat) state" where
  "demo_state = \<lparr>training = False, world = 0, np_rng = 7, calls = []\<rparr>"

section \<open>Batch partitioning: properties\<close>

lemma ceil_div_nat:
  assumes "0 < b"
  shows "int ((n + b - 1) div b) = \<lceil>(of_nat n :: rat) / of_nat b\<rceil>"
proof -
  define q where "q = (n + b - 1) div b"
  have up: "n + b - 1 < q * b + b"
    unfolding q_def using dividend_less_div_times[of b "n + b - 1"] assms by linarith
  have lo: "q * b \<le> n + b - 1"
    unfolding q_def by simp
  from up assms have 1: "n \<le> q * b" by linarith
  from lo assms have 2: "q * b < n + b" by linarith
  have bpos: "(0 :: rat) < of_nat b" using assms by simp
  have "(of_nat n :: rat) \<le> of_nat (q * b)" using 1 by (simp only: of_nat_le_iff)
  then have a: "(of_nat n :: rat) / of_nat b \<le> of_int (int q)"
    using bpos by (simp add: pos_divide_le_eq)
  have "(of_nat (q * b) :: rat) < of_nat (n + b)" using 2 by (simp only: of_nat_less_iff)
  then have "(of_nat q :: rat) * of_nat b - of_nat b < of_nat n" by simp
  then have "((of_nat q :: rat) - 1) * of_nat b < of_nat n" by (simp add: algebra_simps)
  then have b: "of_int (int q) - 1 < (of_nat n :: rat) / of_nat b"
    using bpos by (simp add: pos_less_divide_eq)
  have "\<lceil>(of_nat n :: rat) / of_nat b\<rceil> = int q"
    by (rule ceiling_unique[OF b a])
  then show ?thesis by (simp add: q_def)
qed

lemma upt_join: "a \<le> b \<Longrightarrow> b \<le> c \<Longrightarrow> [a ..< b] @ [b ..< c] = [a ..< c]"
  by (metis le_Suc_ex upt_add_eq_append)

lemma concat_batches_upto:
  "concat (map (\<lambda>i. [i * b ..< min n ((i + 1) * b)]) [0 ..< k]) = [0 ..< min n (k * b)]"
proof (induction k)
  case 0
  then show ?case by simp
next
  case (Suc k)
  have "concat (map (\<lambda>i. [i * b ..< min n ((i + 1) * b)]) [0 ..< Suc k]) =
        [0 ..< min n (k * b)] @ [k * b ..< min n ((k + 1) * b)]"
    using Suc by simp
  also have "\<dots> = [0 ..< min n (Suc k * b)]"
  proof (cases "k * b \<le> n")
    case True
    then have "[0 ..< k * b] @ [k * b ..< min n ((k + 1) * b)] = [0 ..< min n ((k + 1) * b)]"
      by (intro upt_join) simp_all
    with True show ?thesis by simp
  next
    case False
    then show ?thesis by simp
  qed
  finally show ?case .
qed

lemma ceil_times_ge: "0 < (b::nat) \<Longrightarrow> n \<le> ((n + b - 1) div b) * b"
  using dividend_less_div_times[of b "n + b - 1"] by linarith



lemma below_ceil_less: 
  assumes "j < (n + b - 1) div b" "0 < (b::nat)"
  shows "j * b < n"
proof -
  have "Suc j * b \<le> ((n + b - 1) div b) * b"
    using assms(1) by (intro mult_le_mono1) simp
  also have "\<dots> \<le> n + b - 1" by simp
  finally show ?thesis using assms(2) by simp
qed

lemma butlast_upt0: "butlast [0 ..< k] = [0 ..< k - 1]"
  by (cases k) simp_all

lemma sorted_wrt_map_upt:
  "(\<And>i j. i < j \<Longrightarrow> j < k \<Longrightarrow> P (f i) (f j)) \<Longrightarrow> sorted_wrt P (map f [0 ..< k])"
  by (simp add: sorted_wrt_map sorted_wrt_iff_nth_less)

text \<open>
  C1: for every sample count \<open>n > 0\<close> and batch size \<open>b > 0\<close>, the batch
  partitioning yields \<open>ceil(n/b)\<close> half-open ranges; read in order they enumerate
  \<open>0..n\<close> exactly once; their starts and their ends are strictly increasing; every
  range is non-empty and at most \<open>b\<close> long, and every range but the last is exactly
  \<open>b\<close> long; for \<open>n = 10\<close>, \<open>b = 3\<close> the ranges are (0,3), (3,6), (6,9), (9,10).
\<close>

theorem make_batches_partition:
  assumes "0 < n" and "0 < b"
  shows "int (length (make_batches n b)) = \<lceil>(of_nat n :: rat) / of_nat b\<rceil>
       \<and> concat (map (\<lambda>(s, e). [s ..< e]) (make_batches n b)) = [0 ..< n]
       \<and> sorted_wrt (<) (map fst (make_batches n b))
       \<and> sorted_wrt (<) (map snd (make_batches n b))
       \<and> list_all (\<lambda>(s, e). s < e \<and> e - s \<le> b) (make_batches n b)
       \<and> list_all (\<lambda>(s, e). e - s = b) (butlast (make_batches n b))
       \<and> make_batches 10 3 = [(0, 3), (3, 6), (6, 9), (9, 10)]"
proof -
  let ?k = "(n + b - 1) div b"
  have len: "int (length (make_batches n b)) = \<lceil>(of_nat n :: rat) / of_nat b\<rceil>"
    using ceil_div_nat[OF assms(2), of n] by (simp add: make_batches_def)
  have "concat (map (\<lambda>(s, e). [s ..< e]) (make_batches n b)) = [0 ..< min n (?k * b)]"
    using concat_batches_upto[of b n ?k] by (simp add: make_batches_def comp_def)
  moreover have "min n (?k * b) = n"
    using ceil_times_ge[OF assms(2), of n] by simp
  ultimately have cover: "concat (map (\<lambda>(s, e). [s ..< e]) (make_batches n b)) = [0 ..< n]"
    by simp
  have starts: "sorted_wrt (<) (map fst (make_batches n b))"
    unfolding make_batches_def map_map comp_def fst_conv
    by (rule sorted_wrt_map_upt) (simp add: assms(2))
  have ends: "sorted_wrt (<) (map snd (make_batches n b))"
    unfolding make_batches_def map_map comp_def snd_conv
  proof (rule sorted_wrt_map_upt)
    fix i j assume "i < j" "j < ?k"
    then have "j * b < n" by (simp add: below_ceil_less assms(2))
    moreover have "(i + 1) * b \<le> j * b" using \<open>i < j\<close> by (intro mult_le_mono1) simp
    ultimately show "min n ((i + 1) * b) < min n ((j + 1) * b)"
      using assms(2) \<open>i < j\<close> by (simp add: min_def)
  qed
  have each: "list_all (\<lambda>(s, e). s < e \<and> e - s \<le> b) (make_batches n b)"
    unfolding make_batches_def list_all_iff
    using assms(2) by (auto simp: below_ceil_less)
  have full: "list_all (\<lambda>(s, e). e - s = b) (butlast (make_batches n b))"
  proof -
    have "butlast (make_batches n b) =
          map (\<lambda>i. (i * b, min n ((i + 1) * b))) [0 ..< ?k - 1]"
      by (simp add: make_batches_def map_butlast[symmetric] butlast_upt0)
    moreover have "min n ((i + 1) * b) - i * b = b" if "i < ?k - 1" for i
    proof -
      from that have "Suc i < ?k" by simp
      then have "Suc i * b < n" by (rule below_ceil_less) (rule assms(2))
      then show ?thesis by simp
    qed
    ultimately show ?thesis by (simp add: list_all_iff)
  qed
  have ex: "make_batches 10 3 = [(0, 3), (3, 6), (6, 9), (9, 10)]"
    by (simp add: make_batches_def upt_rec)
  from len cover starts ends each full ex show ?thesis by blast
qed

text \<open>The partition of ten samples into batches of three.\<close>

theorem make_batches_partition_witness:
  "(0 :: nat) < 10 \<and> (0 :: nat) < 3
   \<and> int (length (make_batches 10 3)) = \<lceil>(of_nat 10 :: rat) / of_nat 3\<rceil>
   \<and> concat (map (\<lambda>(s, e). [s ..< e]) (make_batches 10 3)) = [0 ..< 10]
   \<and> list_all (\<lambda>(s, e). s < e \<and> e - s \<le> 3) (make_batches 10 3)
   \<and> list_all (\<lambda>(s, e). e - s = 3) (butlast (make_batches 10 3))"
proof -
  have n: "(0 :: nat) < 10" and b: "(0 :: nat) < 3" by simp_all
  from make_batches_partition[OF n b] n b show ?thesis by blast
qed

section \<open>The batch loop\<close>

lemma bindE_Inr_iff: "bindE m f = Inr r \<longleftrightarrow> (\<exists>v. m = Inr v \<and> f v = Inr r)"
  by (cases m) (simp_all add: bindE_def)

lemma bindE_Inl_iff: "bindE m f = Inl e \<longleftrightarrow> m = Inl e \<or> (\<exists>v. m = Inr v \<and> f v = Inl e)"
  by (cases m) (simp_all add: bindE_def)

lemma collab_Inr_iff: "collab m = Inr v \<longleftrightarrow> m = Inr v"
  by (cases m) (simp_all add: collab_def)

lemma collab_Inl_iff: "collab m = Inl e \<longleftrightarrow> (\<exists>c. m = Inl c \<and> e = Collaborator c)"
  by (cases m) (auto simp: collab_def)

lemma train_batch_Inr:
  assumes "train_batch env x y t idxs (a, e) (n0, l0, lg0) s = Inr ((n1, l1, lg1), s1)"
  shows "\<exists>bl. calls s1 = calls s @ [TrainStep t (training s) (slice idxs a e) bl]
           \<and> l1 = fadd l0 bl \<and> n1 = n0 + (int e - int a) \<and> n1 \<noteq> 0
           \<and> lg1 = AList.update ''train_loss'' (fdiv l1 (float_of_int n1)) lg0
           \<and> training s1 = training s \<and> np_rng s1 = np_rng s"
  using assms
  by (auto simp: bindE_Inr_iff collab_Inr_iff Let_def split: if_splits)

lemma run_batches_Inr:
  assumes "run_batches env x y t idxs bs (n0, l0, lg0) s = Inr ((n1, l1, lg1), s1)"
  shows "\<exists>evs. calls s1 = calls s @ evs
           \<and> list_all (\<lambda>ev. is_TrainStep ev \<and> ev_epoch ev = t \<and> ev_mode ev = training s) evs
           \<and> map ev_idxs evs = map (\<lambda>(a, e). slice idxs a e) bs
           \<and> l1 = foldl fadd l0 (map ev_loss evs)
           \<and> n1 = n0 + (\<Sum>(a, e)\<leftarrow>bs. int e - int a)
           \<and> (bs \<noteq> [] \<longrightarrow> map_of lg1 ''train_loss'' = Some (fdiv l1 (float_of_int n1)))
           \<and> (bs = [] \<longrightarrow> lg1 = lg0)
           \<and> training s1 = training s \<and> np_rng s1 = np_rng s"
  using assms
proof (induction bs arbitrary: n0 l0 lg0 s)
  case Nil
  then show ?case by simp
next
  case (Cons b bs)
  obtain a e where b: "b = (a, e)" by (cases b)
  from Cons.prems obtain n2 l2 lg2 s2 where
    tb: "train_batch env x y t idxs (a, e) (n0, l0, lg0) s = Inr ((n2, l2, lg2), s2)" and
    rb: "run_batches env x y t idxs bs (n2, l2, lg2) s2 = Inr ((n1, l1, lg1), s1)"
    by (auto simp: b split: sum.splits)
  from train_batch_Inr[OF tb] obtain bl where
    1: "calls s2 = calls s @ [TrainStep t (training s) (slice idxs a e) bl]"
       "l2 = fadd l0 bl" "n2 = n0 + (int e - int a)" "n2 \<noteq> 0"
       "lg2 = AList.update ''train_loss'' (fdiv l2 (float_of_int n2)) lg0"
       "training s2 = training s" "np_rng s2 = np_rng s"
    by blast
  from Cons.IH[OF rb] obtain evs where
    2: "calls s1 = calls s2 @ evs"
       "list_all (\<lambda>ev. is_TrainStep ev \<and> ev_epoch ev = t \<and> ev_mode ev = training s2) evs"
       "map ev_idxs evs = map (\<lambda>(a, e). slice idxs a e) bs"
       "l1 = foldl fadd l2 (map ev_loss evs)"
       "n1 = n2 + (\<Sum>(a, e)\<leftarrow>bs. int e - int a)"
       "bs \<noteq> [] \<longrightarrow> map_of lg1 ''train_loss'' = Some (fdiv l1 (float_of_int n1))"
       "bs = [] \<longrightarrow> lg1 = lg2"
       "training s1 = training s2" "np_rng s1 = np_rng s2"
    by blast
  let ?evs = "TrainStep t (training s) (slice idxs a e) bl # evs"
  have "calls s1 = calls s @ ?evs" using 1 2 by simp
  moreover have "list_all (\<lambda>ev. is_TrainStep ev \<and> ev_epoch ev = t \<and> ev_mode ev = training s) ?evs"
    using 1 2 by simp
  moreover have "map ev_idxs ?evs = map (\<lambda>(a, e). slice idxs a e) (b # bs)"
    using 2 b by simp
  moreover have "l1 = foldl fadd l0 (map ev_loss ?evs)" using 1 2 by simp
  moreover have "n1 = n0 + (\<Sum>(a, e)\<leftarrow>b # bs. int e - int a)" using 1 2 b by simp
  moreover have "map_of lg1 ''train_loss'' = Some (fdiv l1 (float_of_int n1))"
  proof (cases "bs = []")
    case True
    then have "evs = []" using 2(3) by simp
    with True show ?thesis using 1 2 by (simp add: update_conv')
  next
    case False
    then show ?thesis using 2 by simp
  qed
  moreover have "training s1 = training s" "np_rng s1 = np_rng s" using 1 2 by simp_all
  ultimately show ?case by blast
qed




lemma make_batches_bounds:
  assumes "0 < b"
  shows "list_all (\<lambda>(a, e). a < e \<and> e \<le> n) (make_batches n b)"
  unfolding make_batches_def list_all_iff using assms by (auto simp: below_ceil_less)


lemma make_batches_nonempty: "0 < n \<Longrightarrow> 0 < b \<Longrightarrow> make_batches n b \<noteq> []"
  by (simp add: make_batches_def div_greater_zero_iff)




section \<open>The prediction loop: properties\<close>

lemma chain_end_ge: "chain p n bs \<Longrightarrow> p \<le> chain_end p bs \<and> chain_end p bs \<le> max p n"
  by (induction p n bs rule: chain.induct) auto

lemma chain_make_batches_from:
  assumes "0 < b"
  shows "k \<le> K \<Longrightarrow> K \<le> (n + b - 1) div b \<Longrightarrow>
     chain (min n (k * b)) n (map (\<lambda>i. (i * b, min n ((i + 1) * b))) [k ..< K]) \<and>
     chain_end (min n (k * b)) (map (\<lambda>i. (i * b, min n ((i + 1) * b))) [k ..< K]) = min n (K * b)"
proof (induction rule: inc_induct)
  case base
  then show ?case by simp
next
  case (step k)
  from step have "k < (n + b - 1) div b" by simp
  then have lt: "k * b < n" using assms by (rule below_ceil_less)
  from step show ?case using lt assms by (simp add: upt_conv_Cons)
qed

lemma chain_make_batches:
  assumes "0 < b"
  shows "chain 0 n (make_batches n b)" and "chain_end 0 (make_batches n b) = n"
  using chain_make_batches_from[OF assms, of 0 "(n + b - 1) div b" n] ceil_times_ge[OF assms, of n]
  by (simp_all add: make_batches_def)

lemma scatter_upt:
  "length rs = e - a \<Longrightarrow> a \<le> e \<Longrightarrow> e \<le> length dst \<Longrightarrow>
   scatter_rows dst [a ..< e] rs = take a dst @ rs @ drop e dst"
proof (induction rs arbitrary: a dst)
  case Nil
  then show ?case by simp
next
  case (Cons r rs)
  then have lt: "a < e" by simp
  then have "scatter_rows dst [a ..< e] (r # rs) = scatter_rows (dst[a := r]) [Suc a ..< e] rs"
    by (simp add: upt_conv_Cons)
  also have "\<dots> = take (Suc a) (dst[a := r]) @ rs @ drop e (dst[a := r])"
    using Cons.prems lt by (intro Cons.IH) simp_all
  also have "\<dots> = take a dst @ (r # rs) @ drop e dst"
    using Cons.prems lt by (simp add: take_Suc_conv_app_nth)
  finally show ?case .
qed

lemma index_select_upt:
  "e \<le> size0 x \<Longrightarrow> index_select x [a ..< e] = Inr (x\<lparr>rows := map (\<lambda>i. rows x ! i) [a ..< e]\<rparr>)"
  by (simp add: index_select_def list_all_iff)

lemma length_chunk_rows: "length (chunk_rows k w flat) = k"
  by (simp add: chunk_rows_def)

lemma length_broadcast_rows: "length (broadcast_rows v k ty) = k"
  by (simp add: broadcast_rows_def length_chunk_rows)

lemma index_put_upt_Inr:
  assumes "index_put y [a ..< e] v = Inr y1" "a \<le> e" "e \<le> size0 y"
  shows "dtype v = dtype y \<and> broadcastable v (e - a) (trailing y)
         \<and> trailing y1 = trailing y \<and> dtype y1 = dtype y
         \<and> rows y1 = take a (rows y) @ broadcast_rows v (e - a) (trailing y) @ drop e (rows y)"
  using assms
  by (auto simp: index_put_def size0_def scatter_upt length_broadcast_rows split: if_splits)

lemma index_put_upt_Inl:
  assumes "index_put y [a ..< e] v = Inl err" and "e \<le> size0 y"
  shows "err = ShapeError \<or> err = DtypeError"
  using assms by (auto simp: index_put_def list_all_iff split: if_splits)

lemma slice_upt: "e \<le> n \<Longrightarrow> slice [0 ..< n] a e = [a ..< e]"
  by (auto simp: slice_def list_eq_iff_nth_eq)


text \<open>
  Forward passes in a row: from the module state \<open>w\<close>, under the mode flag \<open>m\<close>, on the
  rows of \<open>x\<close> that each index list selects, giving the outputs \<open>outs\<close> and leaving the
  state \<open>w'\<close>.
\<close>

lemma predict_batches_step:
  fixes env :: "('a, 'b, 'c) env"
  assumes "predict_batches env x n [0 ..< n] ((i, a, e) # ebs) yp s = Inr (yp', s')"
    and "a \<le> e" "e \<le> n" "size0 x = n"
    and "i = 0 \<or> (\<exists>y. yp = Some y \<and> size0 y = n)"
  shows "\<exists>out w y0 y1.
        forward env (training s) (world s) (x\<lparr>rows := map (\<lambda>i. rows x ! i) [a ..< e]\<rparr>)
          = Inr (out, w)
      \<and> (if i = 0 then Some (zeros n (trailing out)) else yp) = Some y0
      \<and> predict_batches env x n [0 ..< n] ebs (Some y1)
          (s\<lparr>world := w, calls := calls s @ [PredictStep (training s) [a ..< e] out]\<rparr>)
          = Inr (yp', s')
      \<and> dtype out = dtype y0 \<and> broadcastable out (e - a) (trailing y0)
      \<and> trailing y1 = trailing y0 \<and> dtype y1 = dtype y0
      \<and> rows y1 = take a (rows y0) @ broadcast_rows out (e - a) (trailing y0) @ drop e (rows y0)"
proof -
  have sl: "slice [0 ..< n] a e = [a ..< e]" using assms(3) by (rule slice_upt)
  have sel: "index_select x [a ..< e] = Inr (x\<lparr>rows := map (\<lambda>i. rows x ! i) [a ..< e]\<rparr>)"
    using assms(3,4) by (simp add: index_select_upt)
  from assms(1) obtain out w where
    fw: "forward env (training s) (world s) (x\<lparr>rows := map (\<lambda>i. rows x ! i) [a ..< e]\<rparr>)
           = Inr (out, w)"
    by (auto simp: sl sel Let_def collab_Inl_iff collab_Inr_iff split: sum.splits)
  have "\<exists>y0. (if i = 0 then Some (zeros n (trailing out)) else yp) = Some y0 \<and> size0 y0 = n"
  proof (cases "i = 0")
    case True
    then show ?thesis by (simp add: zeros_def size0_def)
  next
    case False
    with assms(5) show ?thesis by auto
  qed
  then obtain y0 where y0: "(if i = 0 then Some (zeros n (trailing out)) else yp) = Some y0"
    and sz: "size0 y0 = n"
    by blast
  have step_eq: "predict_batches env x n [0 ..< n] ((i, a, e) # ebs) yp s =
      (case index_put y0 [a ..< e] out of
         Inl err \<Rightarrow> Inl err
       | Inr y1 \<Rightarrow> predict_batches env x n [0 ..< n] ebs (Some y1)
          (s\<lparr>world := w, calls := calls s @ [PredictStep (training s) [a ..< e] out]\<rparr>))"
    using y0 by (simp add: sl sel fw collab_def Let_def)
  have "\<exists>y1. index_put y0 [a ..< e] out = (Inr y1 :: 'c error + tensor) \<and>
          predict_batches env x n [0 ..< n] ebs (Some y1)
          (s\<lparr>world := w, calls := calls s @ [PredictStep (training s) [a ..< e] out]\<rparr>)
          = Inr (yp', s')"
    using assms(1) unfolding step_eq by (auto split: sum.splits)
  then obtain y1 where
    ip: "index_put y0 [a ..< e] out = (Inr y1 :: 'c error + tensor)" and
    rec: "predict_batches env x n [0 ..< n] ebs (Some y1)
          (s\<lparr>world := w, calls := calls s @ [PredictStep (training s) [a ..< e] out]\<rparr>)
          = Inr (yp', s')"
    by blast
  from index_put_upt_Inr[OF ip assms(2)] assms(3) sz fw y0 rec show ?thesis by auto
qed


lemma predict_batches_Some:
  fixes env :: "('a, 'b, 'c) env"
  assumes "predict_batches env x n [0 ..< n] ebs (Some y0) s = Inr (yp', s')"
    and "list_all (\<lambda>eb. 0 < fst eb) ebs"
    and "chain p n (map snd ebs)"
    and "size0 y0 = n" "size0 x = n"
  shows "\<exists>y1 evs ws. yp' = Some y1 \<and> calls s' = calls s @ evs
      \<and> list_all (\<lambda>ev. is_PredictStep ev \<and> ev_mode ev = training s) evs
      \<and> map ev_idxs evs = map (\<lambda>(a, e). [a ..< e]) (map snd ebs)
      \<and> list_all (\<lambda>ev. dtype (ev_out ev) = dtype y0
                         \<and> broadcastable (ev_out ev) (length (ev_idxs ev)) (trailing y0)) evs
      \<and> trailing y1 = trailing y0 \<and> dtype y1 = dtype y0 \<and> size0 y1 = n
      \<and> rows y1 = take p (rows y0)
            @ concat (map (\<lambda>ev. broadcast_rows (ev_out ev) (length (ev_idxs ev)) (trailing y0)) evs)
            @ drop (chain_end p (map snd ebs)) (rows y0)
      \<and> length ws = length evs
      \<and> (\<forall>k<length evs. forward env (training s) ((world s # ws) ! k)
              (x\<lparr>rows := map (\<lambda>i. rows x ! i) (ev_idxs (evs ! k))\<rparr>)
            = Inr (ev_out (evs ! k), ws ! k))
      \<and> world s' = last (world s # ws)
      \<and> training s' = training s \<and> np_rng s' = np_rng s"
  using assms
proof (induction ebs arbitrary: y0 s p)
  case Nil
  then show ?case by (auto simp: size0_def)
next
  case (Cons eb ebs)
  obtain i a e where eb: "eb = (i, a, e)" by (cases eb)
  from Cons.prems(2,3) have i: "0 < i" and a: "a = p" "p < e" "e \<le> n"
    and ch: "chain e n (map snd ebs)" and pos: "list_all (\<lambda>eb. 0 < fst eb) ebs"
    by (simp_all add: eb)
  have yp: "i = 0 \<or> (\<exists>y. Some y0 = Some y \<and> size0 y = n)" using Cons.prems(4) by simp
  from predict_batches_step[OF Cons.prems(1)[unfolded eb] _ a(3) Cons.prems(5) yp] a i
  obtain out w y1 where
    fw: "forward env (training s) (world s) (x\<lparr>rows := map (\<lambda>i. rows x ! i) [a ..< e]\<rparr>)
          = Inr (out, w)" and
    rec: "predict_batches env x n [0 ..< n] ebs (Some y1)
          (s\<lparr>world := w, calls := calls s @ [PredictStep (training s) [a ..< e] out]\<rparr>)
          = Inr (yp', s')" and
    out: "dtype out = dtype y0" "broadcastable out (e - a) (trailing y0)"
      "trailing y1 = trailing y0" "dtype y1 = dtype y0"
      "rows y1 = take a (rows y0) @ broadcast_rows out (e - a) (trailing y0) @ drop e (rows y0)"
    by auto
  have len: "length (rows y0) = n" using Cons.prems(4) by (simp add: size0_def)
  have lout: "length (broadcast_rows out (e - a) (trailing y0)) = e - p"
    using a by (simp add: length_broadcast_rows)
  have sz: "size0 y1 = n" using out(5) a len lout by (simp add: size0_def)
  let ?s1 = "s\<lparr>world := w, calls := calls s @ [PredictStep (training s) [a ..< e] out]\<rparr>"
  from Cons.IH[OF rec pos ch sz Cons.prems(5)] obtain y2 evs ws where
    ih: "yp' = Some y2" "calls s' = calls ?s1 @ evs"
      "list_all (\<lambda>ev. is_PredictStep ev \<and> ev_mode ev = training ?s1) evs"
      "map ev_idxs evs = map (\<lambda>(a, e). [a ..< e]) (map snd ebs)"
      "list_all (\<lambda>ev. dtype (ev_out ev) = dtype y1
                         \<and> broadcastable (ev_out ev) (length (ev_idxs ev)) (trailing y1)) evs"
      "trailing y2 = trailing y1" "dtype y2 = dtype y1" "size0 y2 = n"
      "rows y2 = take e (rows y1)
            @ concat (map (\<lambda>ev. broadcast_rows (ev_out ev) (length (ev_idxs ev)) (trailing y1)) evs)
            @ drop (chain_end e (map snd ebs)) (rows y1)"
      "length ws = length evs"
      "\<forall>k<length evs. forward env (training ?s1) ((world ?s1 # ws) ! k)
              (x\<lparr>rows := map (\<lambda>i. rows x ! i) (ev_idxs (evs ! k))\<rparr>)
            = Inr (ev_out (evs ! k), ws ! k)"
      "world s' = last (world ?s1 # ws)"
      "training s' = training ?s1" "np_rng s' = np_rng ?s1"
    by (elim conjE exE) (rule that, assumption+)
  let ?q = "chain_end e (map snd ebs)"
  have q: "e \<le> ?q" using chain_end_ge[OF ch] by simp
  have tk: "take e (rows y1) = take p (rows y0) @ broadcast_rows out (e - a) (trailing y0)"
    using out(5) a len lout by simp
  have dr: "drop ?q (rows y1) = drop ?q (rows y0)"
  proof -
    have "drop ?q (rows y1) =
          drop ?q ((take p (rows y0) @ broadcast_rows out (e - a) (trailing y0)) @ drop e (rows y0))"
      using out(5) a by simp
    also have "\<dots> = drop (?q - e) (drop e (rows y0))"
      using a len lout q by (simp only: drop_append) simp
    also have "\<dots> = drop ?q (rows y0)" using q by simp
    finally show ?thesis .
  qed
  let ?evs = "PredictStep (training s) [a ..< e] out # evs"
  let ?ws = "w # ws"
  have c1: "yp' = Some y2" by (rule ih(1))
  have c2: "calls s' = calls s @ ?evs" using ih(2) by simp
  have c3: "list_all (\<lambda>ev. is_PredictStep ev \<and> ev_mode ev = training s) ?evs"
    using ih(3) by simp
  have c4: "map ev_idxs ?evs = map (\<lambda>(a, e). [a ..< e]) (map snd (eb # ebs))"
    using ih(4) by (simp add: eb)
  have c5: "list_all (\<lambda>ev. dtype (ev_out ev) = dtype y0
                         \<and> broadcastable (ev_out ev) (length (ev_idxs ev)) (trailing y0)) ?evs"
    using ih(5) out by simp
  have c6: "trailing y2 = trailing y0" "dtype y2 = dtype y0" "size0 y2 = n"
    using ih out by simp_all
  have c7: "rows y2 = take p (rows y0)
            @ concat (map (\<lambda>ev. broadcast_rows (ev_out ev) (length (ev_idxs ev)) (trailing y0)) ?evs)
            @ drop (chain_end p (map snd (eb # ebs))) (rows y0)"
    using ih(9) tk dr out(3) by (simp add: eb)
  have c8: "length ?ws = length ?evs" using ih(10) by simp
  have c9: "\<forall>k<length ?evs. forward env (training s) ((world s # ?ws) ! k)
              (x\<lparr>rows := map (\<lambda>i. rows x ! i) (ev_idxs (?evs ! k))\<rparr>)
            = Inr (ev_out (?evs ! k), ?ws ! k)"
  proof (intro allI impI)
    fix k assume k: "k < length ?evs"
    show "forward env (training s) ((world s # ?ws) ! k)
              (x\<lparr>rows := map (\<lambda>i. rows x ! i) (ev_idxs (?evs ! k))\<rparr>)
            = Inr (ev_out (?evs ! k), ?ws ! k)"
    proof (cases k)
      case 0
      then show ?thesis using fw by simp
    next
      case (Suc k')
      with k have "k' < length evs" by simp
      with ih(11) have "forward env (training ?s1) ((world ?s1 # ws) ! k')
              (x\<lparr>rows := map (\<lambda>i. rows x ! i) (ev_idxs (evs ! k'))\<rparr>)
            = Inr (ev_out (evs ! k'), ws ! k')" by blast
      then show ?thesis using Suc by simp
    qed
  qed
  have c10: "world s' = last (world s # ?ws)" using ih(12) by simp
  have c11: "training s' = training s" "np_rng s' = np_rng s" using ih by simp_all
  show ?case
    apply (rule exI[of _ y2])
    apply (rule exI[of _ ?evs])
    apply (rule exI[of _ ?ws])
    apply (intro conjI)
                 apply (rule c1)
                apply (rule c2)
               apply (rule c3)
              apply (rule c4)
             apply (rule c5)
            apply (rule c6(1))
           apply (rule c6(2))
          apply (rule c6(3))
         apply (rule c7)
        apply (rule c8)
       apply (rule c9)
      apply (rule c10)
     apply (rule c11(1))
    apply (rule c11(2))
    done
qed

lemma predict_Inr:
  fixes env :: "('a, 'b, 'c) env"
  assumes "predict env x b s = Inr (y_pred, s')" and "0 < b"
  shows "\<exists>evs ws. calls s' = calls s @ evs \<and> evs \<noteq> []
      \<and> list_all (\<lambda>ev. is_PredictStep ev \<and> \<not> ev_mode ev) evs
      \<and> map ev_idxs evs = map (\<lambda>(a, e). [a ..< e]) (make_batches (size0 x) b)
      \<and> list_all (\<lambda>ev. dtype (ev_out ev) = Float32
                         \<and> broadcastable (ev_out ev) (length (ev_idxs ev)) (trailing y_pred)) evs
      \<and> trailing y_pred = trailing (ev_out (hd evs)) \<and> dtype y_pred = Float32
      \<and> size0 y_pred = size0 x
      \<and> rows y_pred = concat (map (\<lambda>ev. broadcast_rows (ev_out ev) (length (ev_idxs ev))
                                           (trailing y_pred)) evs)
      \<and> length ws = length evs
      \<and> (\<forall>k<length evs. forward env False ((world s # ws) ! k)
              (x\<lparr>rows := map (\<lambda>i. rows x ! i) (ev_idxs (evs ! k))\<rparr>)
            = Inr (ev_out (evs ! k), ws ! k))
      \<and> world s' = last (world s # ws)
      \<and> training s' = False \<and> np_rng s' = np_rng s"
proof -
  let ?n = "size0 x"
  let ?mb = "make_batches ?n b"
  let ?s0 = "s\<lparr>training := False\<rparr>"
  from assms(1) obtain yp where
    pb: "predict_batches env x ?n [0 ..< ?n] (enumerate 0 ?mb) None ?s0 = Inr (yp, s')"
    and yp: "yp = Some y_pred"
    by (auto simp: predict_def Let_def bindE_Inr_iff split: option.splits)
  have ch: "chain 0 ?n ?mb" and ce: "chain_end 0 ?mb = ?n"
    using chain_make_batches[OF assms(2)] by simp_all
  show ?thesis
  proof (cases ?mb)
    case Nil
    with pb yp show ?thesis by simp
  next
    case (Cons b0 bs)
    obtain a e where b0: "b0 = (a, e)" by (cases b0)
    from ch Cons b0 have a: "a = 0" "0 < e" "e \<le> ?n" and ch': "chain e ?n bs" by simp_all
    from ce Cons b0 have ce': "chain_end e bs = ?n" by simp
    have en: "enumerate 0 ?mb = (0, a, e) # enumerate 1 bs" by (simp add: Cons b0)
    have i0: "(0::nat) = 0 \<or> (\<exists>y. None = Some y \<and> size0 y = ?n)" by simp
    have ae: "a \<le> e" using a by simp
    from predict_batches_step[OF pb[unfolded en] ae a(3) refl i0]
    obtain out w y0 y1 where
      fw: "forward env (training ?s0) (world ?s0) (x\<lparr>rows := map (\<lambda>i. rows x ! i) [a ..< e]\<rparr>)
            = Inr (out, w)" and
      y0: "(if (0::nat) = 0 then Some (zeros ?n (trailing out)) else None) = Some y0" and
      rec: "predict_batches env x ?n [0 ..< ?n] (enumerate 1 bs) (Some y1)
            (?s0\<lparr>world := w, calls := calls ?s0 @ [PredictStep (training ?s0) [a ..< e] out]\<rparr>)
            = Inr (yp, s')" and
      out: "dtype out = dtype y0" "broadcastable out (e - a) (trailing y0)"
        "trailing y1 = trailing y0" "dtype y1 = dtype y0"
        "rows y1 = take a (rows y0) @ broadcast_rows out (e - a) (trailing y0) @ drop e (rows y0)"
      by (elim conjE exE) (rule that, assumption+)
    have y0z: "y0 = zeros ?n (trailing out)" using y0 by simp
    have y0p: "dtype y0 = Float32" "trailing y0 = trailing out" "size0 y0 = ?n"
      by (simp_all add: y0z zeros_def size0_def)
    let ?s1 = "?s0\<lparr>world := w, calls := calls ?s0 @ [PredictStep (training ?s0) [a ..< e] out]\<rparr>"
    have lout: "length (broadcast_rows out (e - a) (trailing y0)) = e"
      using a by (simp add: length_broadcast_rows)
    have len0: "length (rows y0) = ?n" using y0p(3) by (simp add: size0_def)
    have sz: "size0 y1 = ?n" using out(5) a lout len0 by (simp add: size0_def)
    have pos: "list_all (\<lambda>eb. 0 < fst eb) (enumerate 1 bs)"
      by (auto simp: list_all_iff in_set_enumerate_eq)
    have ch1: "chain e ?n (map snd (enumerate 1 bs))" using ch' by simp
    from predict_batches_Some[OF rec pos ch1 sz refl] obtain y2 evs ws where
      ih: "yp = Some y2" "calls s' = calls ?s1 @ evs"
        "list_all (\<lambda>ev. is_PredictStep ev \<and> ev_mode ev = training ?s1) evs"
        "map ev_idxs evs = map (\<lambda>(a, e). [a ..< e]) (map snd (enumerate 1 bs))"
        "list_all (\<lambda>ev. dtype (ev_out ev) = dtype y1
                         \<and> broadcastable (ev_out ev) (length (ev_idxs ev)) (trailing y1)) evs"
        "trailing y2 = trailing y1" "dtype y2 = dtype y1" "size0 y2 = ?n"
        "rows y2 = take e (rows y1)
            @ concat (map (\<lambda>ev. broadcast_rows (ev_out ev) (length (ev_idxs ev)) (trailing y1)) evs)
            @ drop (chain_end e (map snd (enumerate 1 bs))) (rows y1)"
        "length ws = length evs"
        "\<forall>k<length evs. forward env (training ?s1) ((world ?s1 # ws) ! k)
              (x\<lparr>rows := map (\<lambda>i. rows x ! i) (ev_idxs (evs ! k))\<rparr>)
            = Inr (ev_out (evs ! k), ws ! k)"
        "world s' = last (world ?s1 # ws)"
        "training s' = training ?s1" "np_rng s' = np_rng ?s1"
      by (elim conjE exE) (rule that, assumption+)
    have y2: "y2 = y_pred" using ih(1) yp by simp
    have ty: "trailing y_pred = trailing out" using ih(6) out(3) y0p(2) y2 by simp
    have t1: "trailing y1 = trailing y_pred" using ih(6) y2 by simp
    have t0: "trailing y0 = trailing y_pred" using ty y0p(2) by simp
    let ?evs = "PredictStep False [a ..< e] out # evs"
    let ?ws = "w # ws"
    have c1: "calls s' = calls s @ ?evs" using ih(2) by simp
    have c2: "?evs \<noteq> []" by simp
    have c3: "list_all (\<lambda>ev. is_PredictStep ev \<and> \<not> ev_mode ev) ?evs"
      using ih(3) by simp
    have c4: "map ev_idxs ?evs = map (\<lambda>(a, e). [a ..< e]) ?mb"
      using ih(4) by (simp add: Cons b0)
    have c5: "list_all (\<lambda>ev. dtype (ev_out ev) = Float32
                         \<and> broadcastable (ev_out ev) (length (ev_idxs ev)) (trailing y_pred)) ?evs"
      using ih(5) out(1,2,4) y0p(1) t0 t1 by simp
    have c6: "trailing y_pred = trailing (ev_out (hd ?evs))" using ty by simp
    have c7: "dtype y_pred = Float32" using ih(7) out(4) y0p(1) y2 by simp
    have c8: "size0 y_pred = ?n" using ih(8) y2 by simp
    have c9: "rows y_pred = concat (map (\<lambda>ev. broadcast_rows (ev_out ev) (length (ev_idxs ev))
                                           (trailing y_pred)) ?evs)"
    proof -
      have "take e (rows y1) = broadcast_rows out (e - a) (trailing y0)"
        using out(5) a lout by simp
      moreover have "drop ?n (rows y1) = []" using sz by (simp add: size0_def)
      ultimately show ?thesis using ih(9) ce' y2 t0 t1 a by simp
    qed
    have c10: "length ?ws = length ?evs" using ih(10) by simp
    have c11: "\<forall>k<length ?evs. forward env False ((world s # ?ws) ! k)
              (x\<lparr>rows := map (\<lambda>i. rows x ! i) (ev_idxs (?evs ! k))\<rparr>)
            = Inr (ev_out (?evs ! k), ?ws ! k)"
    proof (intro allI impI)
      fix k assume k: "k < length ?evs"
      show "forward env False ((world s # ?ws) ! k)
              (x\<lparr>rows := map (\<lambda>i. rows x ! i) (ev_idxs (?evs ! k))\<rparr>)
            = Inr (ev_out (?evs ! k), ?ws ! k)"
      proof (cases k)
        case 0
        then show ?thesis using fw by simp
      next
        case (Suc k')
        with k have "k' < length evs" by simp
        with ih(11) have "forward env (training ?s1) ((world ?s1 # ws) ! k')
              (x\<lparr>rows := map (\<lambda>i. rows x ! i) (ev_idxs (evs ! k'))\<rparr>)
            = Inr (ev_out (evs ! k'), ws ! k')" by blast
        then show ?thesis using Suc by simp
      qed
    qed
    have c12: "world s' = last (world s # ?ws)" using ih(12) by simp
    have c13: "training s' = False" "np_rng s' = np_rng s" using ih by simp_all
    show ?thesis
      apply (rule exI[of _ ?evs])
      apply (rule exI[of _ ?ws])
      apply (intro conjI)
                  apply (rule c1)
                 apply (rule c2)
                apply (rule c3)
               apply (rule c4)
              apply (rule c5)
             apply (rule c6)
            apply (rule c7)
           apply (rule c8)
          apply (rule c9)
         apply (rule c10)
        apply (rule c11)
       apply (rule c12)
      apply (rule c13(1))
     apply (rule c13(2))
      done
  qed
qed

lemma concat_chunk_rows_take:
  "k * w \<le> length d \<Longrightarrow> concat (chunk_rows k w d) = take (k * w) d"
proof (induction k)
  case 0
  then show ?case by (simp add: chunk_rows_def)
next
  case (Suc k)
  then have "concat (chunk_rows k w d) = take (k * w) d" by simp
  then have "concat (chunk_rows (Suc k) w d) = take (k * w) d @ take w (drop (k * w) d)"
    by (simp add: chunk_rows_def)
  also have "\<dots> = take (k * w + w) d" by (simp add: take_add)
  finally show ?case by (simp add: add.commute)
qed

lemma concat_chunk_rows: "length d = k * w \<Longrightarrow> concat (chunk_rows k w d) = d"
  by (simp add: concat_chunk_rows_take)

lemma chunk_rows_concat:
  "list_all (\<lambda>r. length r = w) rs \<Longrightarrow> chunk_rows (length rs) w (concat rs) = rs"
proof (induction rs)
  case Nil
  then show ?case by (simp add: chunk_rows_def)
next
  case (Cons r rs)
  then have r: "length r = w" and ih: "chunk_rows (length rs) w (concat rs) = rs" by simp_all
  have "chunk_rows (length (r # rs)) w (concat (r # rs)) =
        map (\<lambda>j. take w (drop (j * w) (r @ concat rs))) (0 # map Suc [0 ..< length rs])"
    unfolding chunk_rows_def by (simp only: list.size upt_conv_Cons map_Suc_upt concat.simps)
      (simp add: upt_conv_Cons map_Suc_upt)
  also have "\<dots> = r # map (\<lambda>j. take w (drop (j * w) (concat rs))) [0 ..< length rs]"
    using r by (simp add: comp_def)
  also have "\<dots> = r # rs" using ih by (simp add: chunk_rows_def)
  finally show ?case .
qed

lemma broadcast_flat_same: "length d = prod_list sh \<Longrightarrow> broadcast_flat sh sh d = d"
proof (induction sh arbitrary: d)
  case Nil
  then show ?case by simp
next
  case (Cons s ss)
  have "\<forall>c\<in>set (chunk_rows s (prod_list ss) d). length c = prod_list ss"
  proof -
    have "min (s * prod_list ss - j * prod_list ss) (prod_list ss) = prod_list ss"
      if "j < s" for j
    proof -
      from that have "Suc j * prod_list ss \<le> s * prod_list ss"
        by (intro mult_le_mono1) simp
      then show ?thesis by simp
    qed
    then show ?thesis using Cons.prems by (auto simp: chunk_rows_def)
  qed
  then have "map (broadcast_flat ss ss) (chunk_rows s (prod_list ss) d)
             = chunk_rows s (prod_list ss) d"
    using Cons.IH by (simp add: map_idI)
  then show ?case using Cons.prems by (simp add: concat_chunk_rows)
qed

lemma pad_strip_ones: "pad_ones (strip_ones sh) (length sh) = sh"
proof -
  have "replicate (length (takeWhile (\<lambda>d. d = 1) sh)) (1::nat) = takeWhile (\<lambda>d. d = 1) sh"
    by (induction sh) simp_all
  moreover have "length sh - length (dropWhile (\<lambda>d. d = 1) sh) = length (takeWhile (\<lambda>d. d = 1) sh)"
  proof -
    have "length sh = length (takeWhile (\<lambda>d. d = 1) sh @ dropWhile (\<lambda>d. d = 1) sh)"
      by (simp only: takeWhile_dropWhile_id)
    then show ?thesis by (simp del: takeWhile_dropWhile_id)
  qed
  ultimately show ?thesis by (simp add: pad_ones_def strip_ones_def)
qed

lemma length_concat_rows:
  "list_all (\<lambda>r. length r = w) rs \<Longrightarrow> length (concat rs) = length rs * w"
  by (induction rs) simp_all

text \<open>A source of the target's own shape is assigned row by row.\<close>

lemma broadcast_rows_same:
  assumes "list_all (\<lambda>r. length r = prod_list (trailing v)) (rows v)"
  shows "broadcast_rows v (size0 v) (trailing v) = rows v"
proof -
  let ?sh = "size0 v # trailing v"
  have p: "pad_ones (strip_ones ?sh) (Suc (length (trailing v))) = ?sh"
    using pad_strip_ones[of ?sh] by simp
  have l: "length (concat (rows v)) = prod_list ?sh"
    using length_concat_rows[OF assms] by (simp add: size0_def)
  have bf: "broadcast_flat ?sh ?sh (concat (rows v)) = concat (rows v)"
    using l by (rule broadcast_flat_same)
  have "broadcast_rows v (size0 v) (trailing v)
        = chunk_rows (size0 v) (prod_list (trailing v)) (concat (rows v))"
    unfolding broadcast_rows_def p bf ..
  also have "\<dots> = rows v" unfolding size0_def using assms by (rule chunk_rows_concat)
  finally show ?thesis .
qed

text \<open>A source of one row, of the target's row shape, is repeated for every index.\<close>

lemma broadcast_rows_one_row:
  assumes "rows v = [r]" and "length r = prod_list (trailing v)"
  shows "broadcast_rows v k (trailing v) = replicate k r"
proof -
  let ?ty = "trailing v"
  let ?sh = "1 # ?ty"
  have s: "size0 v = 1" using assms(1) by (simp add: size0_def)
  have p: "pad_ones (strip_ones ?sh) (Suc (length ?ty)) = ?sh"
    using pad_strip_ones[of ?sh] by simp
  have parts: "map (broadcast_flat ?ty ?ty) (chunk_rows 1 (prod_list ?ty) r) = [r]"
    using assms(2) by (simp add: chunk_rows_def broadcast_flat_same)
  have bf: "broadcast_flat ?sh (k # ?ty) r = concat (replicate k r)"
    using parts by (cases "k = 1") (simp_all add: Let_def)
  have "list_all (\<lambda>q. length q = prod_list ?ty) (replicate k r)"
    using assms(2) by (simp add: list_all_iff)
  from chunk_rows_concat[OF this]
  have ch: "chunk_rows k (prod_list ?ty) (concat (replicate k r)) = replicate k r" by simp
  have cr: "concat (rows v) = r" using assms(1) by simp
  show ?thesis unfolding broadcast_rows_def s p cr bf ch ..
qed

lemma concat_blocks_nth:
  assumes "chain p n bs" and "map length rs = map (\<lambda>(a, e). e - a) bs" and "length pre = p"
  shows "\<forall>k<length bs. \<forall>j<length (rs ! k). (pre @ concat rs) ! (fst (bs ! k) + j) = rs ! k ! j"
  using assms
proof (induction bs arbitrary: p rs pre)
  case Nil
  then show ?case by simp
next
  case (Cons b0 bs)
  obtain a e where b0: "b0 = (a, e)" by (cases b0)
  from Cons.prems(2) obtain r rs' where rs: "rs = r # rs'" by (cases rs) auto
  from Cons.prems b0 rs have a: "a = p" "p < e" and ch: "chain e n bs"
    and lr: "length r = e - p" and ml: "map length rs' = map (\<lambda>(a, e). e - a) bs"
    by simp_all
  have lp: "length (pre @ r) = e" using Cons.prems(3) lr a by simp
  note ih = Cons.IH[OF ch ml lp]
  show ?case
  proof (intro allI impI)
    fix k j assume k: "k < length (b0 # bs)" and j: "j < length (rs ! k)"
    show "(pre @ concat rs) ! (fst ((b0 # bs) ! k) + j) = rs ! k ! j"
    proof (cases k)
      case 0
      with j rs have "j < length r" by simp
      then show ?thesis using 0 b0 rs a Cons.prems(3) by (simp add: nth_append)
    next
      case (Suc k')
      with k j rs have "k' < length bs" "j < length (rs' ! k')" by simp_all
      with ih have "((pre @ r) @ concat rs') ! (fst (bs ! k') + j) = rs' ! k' ! j" by blast
      then show ?thesis using Suc rs by simp
    qed
  qed
qed

text \<open>
  C6: when \<open>predict\<close> returns, with a positive batch size, its result has as many rows as
  the input. It made one forward pass per batch range, in evaluation mode, on the rows of
  the consecutive index ranges of the batch partitioning, each pass starting from what the
  pass before left; the outputs below are the values those calls of the forward
  computation returned. The result is a \<open>torch.zeros\<close> tensor whose row shape is the row
  shape of the first pass's output. Every output has the element type of the result and
  is broadcastable to one row per index of its batch, and row \<open>ev_idxs[j]\<close> of the
  result is row \<open>j\<close> of the output of the pass on \<open>ev_idxs\<close>, broadcast to that shape;
  where the output has one row per sample of the batch, of the result's row shape, that
  is row \<open>j\<close> of the output itself.
\<close>

theorem predict_output_shape:
  fixes env :: "('w, 'g, 'e) env"
  assumes "predict env x b s = Inr (y_pred, s')" and "0 < b"
  shows "size0 y_pred = size0 x
    \<and> (\<exists>evs ws. calls s' = calls s @ evs \<and> evs \<noteq> []
          \<and> list_all is_PredictStep evs
          \<and> map ev_idxs evs = map (\<lambda>(a, e). [a ..< e]) (make_batches (size0 x) b)
          \<and> length ws = length evs
          \<and> (\<forall>k<length evs.
                forward env False ((world s # ws) ! k)
                  (x\<lparr>rows := map (\<lambda>i. rows x ! i) (ev_idxs (evs ! k))\<rparr>)
                = Inr (ev_out (evs ! k), ws ! k))
          \<and> world s' = last (world s # ws)
          \<and> trailing y_pred = trailing (ev_out (hd evs))
          \<and> dtype y_pred = Float32
          \<and> (\<forall>k<length evs.
                dtype (ev_out (evs ! k)) = Float32
              \<and> broadcastable (ev_out (evs ! k)) (length (ev_idxs (evs ! k))) (trailing y_pred)
              \<and> (\<forall>j<length (ev_idxs (evs ! k)).
                    rows y_pred ! (ev_idxs (evs ! k) ! j) =
                      broadcast_rows (ev_out (evs ! k)) (length (ev_idxs (evs ! k)))
                        (trailing y_pred) ! j)
              \<and> (size0 (ev_out (evs ! k)) = length (ev_idxs (evs ! k))
                   \<and> trailing (ev_out (evs ! k)) = trailing y_pred
                   \<and> list_all (\<lambda>r. length r = prod_list (trailing y_pred))
                        (rows (ev_out (evs ! k)))
                 \<longrightarrow> (\<forall>j<length (ev_idxs (evs ! k)).
                        rows y_pred ! (ev_idxs (evs ! k) ! j) = rows (ev_out (evs ! k)) ! j))))"
proof -
  let ?mb = "make_batches (size0 x) b"
  from predict_Inr[OF assms] obtain evs ws where
    r: "calls s' = calls s @ evs" "evs \<noteq> []"
      "list_all (\<lambda>ev. is_PredictStep ev \<and> \<not> ev_mode ev) evs"
      "map ev_idxs evs = map (\<lambda>(a, e). [a ..< e]) ?mb"
      "list_all (\<lambda>ev. dtype (ev_out ev) = Float32
                         \<and> broadcastable (ev_out ev) (length (ev_idxs ev)) (trailing y_pred)) evs"
      "trailing y_pred = trailing (ev_out (hd evs))" "dtype y_pred = Float32"
      "size0 y_pred = size0 x"
      "rows y_pred = concat (map (\<lambda>ev. broadcast_rows (ev_out ev) (length (ev_idxs ev))
                                           (trailing y_pred)) evs)"
      "length ws = length evs"
      "\<forall>k<length evs. forward env False ((world s # ws) ! k)
              (x\<lparr>rows := map (\<lambda>i. rows x ! i) (ev_idxs (evs ! k))\<rparr>)
            = Inr (ev_out (evs ! k), ws ! k)"
      "world s' = last (world s # ws)"
    by (elim conjE exE) (rule that, assumption+)
  have ps: "list_all is_PredictStep evs" using r(3) by (simp add: list_all_iff)
  have len: "length evs = length ?mb"
  proof -
    have "length (map ev_idxs evs) = length (map (\<lambda>(a, e). [a ..< e]) ?mb)"
      by (simp only: r(4))
    then show ?thesis by simp
  qed
  let ?rs = "map (\<lambda>ev. broadcast_rows (ev_out ev) (length (ev_idxs ev)) (trailing y_pred)) evs"
  have "map length ?rs = map length (map ev_idxs evs)"
    by (simp add: length_broadcast_rows)
  also have "\<dots> = map (\<lambda>(a, e). e - a) ?mb"
    unfolding r(4) by (simp add: comp_def case_prod_unfold)
  finally have ml: "map length ?rs = map (\<lambda>(a, e). e - a) ?mb" .
  have ch: "chain 0 (size0 x) ?mb" using chain_make_batches(1)[OF assms(2)] .
  have nth: "\<forall>k<length ?mb. \<forall>j<length (?rs ! k).
               ([] @ concat ?rs) ! (fst (?mb ! k) + j) = ?rs ! k ! j"
    by (rule concat_blocks_nth[OF ch ml]) simp
  have each: "dtype (ev_out (evs ! k)) = Float32
        \<and> broadcastable (ev_out (evs ! k)) (length (ev_idxs (evs ! k))) (trailing y_pred)
        \<and> (\<forall>j<length (ev_idxs (evs ! k)).
              rows y_pred ! (ev_idxs (evs ! k) ! j) =
                broadcast_rows (ev_out (evs ! k)) (length (ev_idxs (evs ! k)))
                  (trailing y_pred) ! j)
        \<and> (size0 (ev_out (evs ! k)) = length (ev_idxs (evs ! k))
             \<and> trailing (ev_out (evs ! k)) = trailing y_pred
             \<and> list_all (\<lambda>r. length r = prod_list (trailing y_pred))
                  (rows (ev_out (evs ! k)))
           \<longrightarrow> (\<forall>j<length (ev_idxs (evs ! k)).
                  rows y_pred ! (ev_idxs (evs ! k) ! j) = rows (ev_out (evs ! k)) ! j))"
    if k: "k < length evs" for k
  proof -
    let ?ev = "evs ! k"
    have mem: "?ev \<in> set evs" using k by simp
    have d: "dtype (ev_out ?ev) = Float32"
      and bc: "broadcastable (ev_out ?ev) (length (ev_idxs ?ev)) (trailing y_pred)"
      using r(5) mem by (simp_all add: list_all_iff)
    have "ev_idxs ?ev = map ev_idxs evs ! k" using k by simp
    also have "\<dots> = [fst (?mb ! k) ..< snd (?mb ! k)]"
      unfolding r(4) using k len by (simp add: case_prod_unfold)
    finally have ix: "ev_idxs ?ev = [fst (?mb ! k) ..< snd (?mb ! k)]" .
    have rk: "?rs ! k = broadcast_rows (ev_out ?ev) (length (ev_idxs ?ev)) (trailing y_pred)"
      using k by simp
    have bro: "\<forall>j<length (ev_idxs ?ev).
              rows y_pred ! (ev_idxs ?ev ! j) =
                broadcast_rows (ev_out ?ev) (length (ev_idxs ?ev)) (trailing y_pred) ! j"
    proof (intro allI impI)
      fix j assume j: "j < length (ev_idxs ?ev)"
      have "length (?rs ! k) = length (ev_idxs ?ev)"
        unfolding rk by (rule length_broadcast_rows)
      with j have j': "j < length (?rs ! k)" by simp
      from nth k len j' have "concat ?rs ! (fst (?mb ! k) + j) = ?rs ! k ! j" by simp
      moreover have "ev_idxs ?ev ! j = fst (?mb ! k) + j" using j unfolding ix by simp
      ultimately show "rows y_pred ! (ev_idxs ?ev ! j) =
                broadcast_rows (ev_out ?ev) (length (ev_idxs ?ev)) (trailing y_pred) ! j"
        unfolding r(9) rk by simp
    qed
    have same: "\<forall>j<length (ev_idxs ?ev). rows y_pred ! (ev_idxs ?ev ! j) = rows (ev_out ?ev) ! j"
      if wf: "size0 (ev_out ?ev) = length (ev_idxs ?ev)
             \<and> trailing (ev_out ?ev) = trailing y_pred
             \<and> list_all (\<lambda>r. length r = prod_list (trailing y_pred)) (rows (ev_out ?ev))"
    proof -
      from wf have "list_all (\<lambda>r. length r = prod_list (trailing (ev_out ?ev))) (rows (ev_out ?ev))"
        by simp
      from broadcast_rows_same[OF this] wf
      have "broadcast_rows (ev_out ?ev) (length (ev_idxs ?ev)) (trailing y_pred) = rows (ev_out ?ev)"
        by simp
      with bro show ?thesis by simp
    qed
    from d bc bro same show ?thesis by blast
  qed
  show ?thesis
    apply (rule conjI)
     apply (rule r(8))
    apply (rule exI[of _ evs])
    apply (rule exI[of _ ws])
    apply (intro conjI)
             apply (rule r(1))
            apply (rule r(2))
           apply (rule ps)
          apply (rule r(4))
         apply (rule r(10))
        apply (rule r(11))
       apply (rule r(12))
      apply (rule r(6))
     apply (rule r(7))
    apply (intro allI impI)
    apply (rule each)
    apply assumption
    done
qed

text \<open>
  Predicting three samples in batches of two: with the identity module, and with a module
  whose one-row output is broadcast over the first batch.
\<close>

theorem predict_output_shape_witness:
  "predict demo_env demo_x 2 demo_state =
     Inr (\<lparr>dtype = Float32, trailing = [1], rows = [[1], [2], [3]]\<rparr>,
          \<lparr>training = False, world = 0, np_rng = 7,
             calls = [PredictStep False [0, 1] \<lparr>dtype = Float32, trailing = [1], rows = [[1], [2]]\<rparr>,
                      PredictStep False [2] \<lparr>dtype = Float32, trailing = [1], rows = [[3]]\<rparr>]\<rparr>)
   \<and> size0 \<lparr>dtype = Float32, trailing = [1], rows = [[1], [2], [3]]\<rparr> = size0 demo_x
   \<and> predict demo_env_first demo_x 2 demo_state =
     Inr (\<lparr>dtype = Float32, trailing = [1], rows = [[1], [1], [3]]\<rparr>,
          \<lparr>training = False, world = 0, np_rng = 7,
             calls = [PredictStep False [0, 1] \<lparr>dtype = Float32, trailing = [1], rows = [[1]]\<rparr>,
                      PredictStep False [2] \<lparr>dtype = Float32, trailing = [1], rows = [[3]]\<rparr>]\<rparr>)
   \<and> size0 \<lparr>dtype = Float32, trailing = [1], rows = [[1], [1], [3]]\<rparr> = size0 demo_x"
proof -
  have run: "predict demo_env demo_x 2 demo_state =
     Inr (\<lparr>dtype = Float32, trailing = [1], rows = [[1], [2], [3]]\<rparr>,
          \<lparr>training = False, world = 0, np_rng = 7,
             calls = [PredictStep False [0, 1] \<lparr>dtype = Float32, trailing = [1], rows = [[1], [2]]\<rparr>,
                      PredictStep False [2] \<lparr>dtype = Float32, trailing = [1], rows = [[3]]\<rparr>]\<rparr>)"
    by code_simp
  have run1: "predict demo_env_first demo_x 2 demo_state =
     Inr (\<lparr>dtype = Float32, trailing = [1], rows = [[1], [1], [3]]\<rparr>,
          \<lparr>training = False, world = 0, np_rng = 7,
             calls = [PredictStep False [0, 1] \<lparr>dtype = Float32, trailing = [1], rows = [[1]]\<rparr>,
                      PredictStep False [2] \<lparr>dtype = Float32, trailing = [1], rows = [[3]]\<rparr>]\<rparr>)"
    by code_simp
  have b: "(0 :: nat) < 2" by simp
  from predict_output_shape[OF run b] predict_output_shape[OF run1 b] run run1
  show ?thesis by blast
qed

text \<open>
  On an input that is not empty, \<open>predict\<close> fails only with a failure of the forward
  computation or because an output of it does not fit the rows it is assigned to, in
  shape or in element type.
\<close>

lemma predict_batches_Inl:
  fixes env :: "('w, 'g, 'e) env"
  assumes "predict_batches env x n [0 ..< n] ebs (Some y0) s = Inl err"
    and "list_all (\<lambda>eb. 0 < fst eb) ebs"
    and "chain p n (map snd ebs)"
    and "size0 y0 = n" "size0 x = n"
  shows "(\<exists>c. err = Collaborator c) \<or> err = ShapeError \<or> err = DtypeError"
  using assms
proof (induction ebs arbitrary: y0 s p)
  case Nil
  then show ?case by simp
next
  case (Cons eb ebs)
  obtain i a e where eb: "eb = (i, a, e)" by (cases eb)
  from Cons.prems(2,3) have i: "0 < i" and a: "a = p" "p < e" "e \<le> n"
    and ch: "chain e n (map snd ebs)" and pos: "list_all (\<lambda>eb. 0 < fst eb) ebs"
    by (simp_all add: eb)
  have sl: "slice [0 ..< n] a e = [a ..< e]" using a(3) by (rule slice_upt)
  have sel: "index_select x [a ..< e] =
      (Inr (x\<lparr>rows := map (\<lambda>i. rows x ! i) [a ..< e]\<rparr>) :: 'e error + tensor)"
    using a(3) Cons.prems(5) by (simp add: index_select_upt)
  let ?xb = "x\<lparr>rows := map (\<lambda>i. rows x ! i) [a ..< e]\<rparr>"
  show ?case
  proof (cases "forward env (training s) (world s) ?xb")
    case (Inl c)
    with Cons.prems(1) have "err = Collaborator c"
      by (simp add: eb sl sel collab_def Let_def)
    then show ?thesis by blast
  next
    case (Inr ow)
    obtain out w where ow: "ow = (out, w)" by (cases ow)
    show ?thesis
    proof (cases "index_put y0 [a ..< e] out :: 'e error + tensor")
      case (Inl err1)
      with Cons.prems(1) i have "err = err1"
        by (simp add: eb sl sel Inr ow collab_def Let_def)
      moreover have "err1 = ShapeError \<or> err1 = DtypeError"
        using index_put_upt_Inl[OF Inl] a(3) Cons.prems(4) by simp
      ultimately show ?thesis by blast
    next
      case ip: (Inr y1)
      from index_put_upt_Inr[OF ip] a Cons.prems(4)
      have r: "rows y1 = take a (rows y0) @ broadcast_rows out (e - a) (trailing y0)
                 @ drop e (rows y0)"
        by simp
      have sz: "size0 y1 = n"
        using r a Cons.prems(4) by (simp add: size0_def length_broadcast_rows)
      from Cons.prems(1) i have
        "predict_batches env x n [0 ..< n] ebs (Some y1)
          (s\<lparr>world := w, calls := calls s @ [PredictStep (training s) [a ..< e] out]\<rparr>)
          = Inl err"
        by (simp add: eb sl sel Inr ow ip collab_def Let_def)
      from Cons.IH[OF this pos ch sz Cons.prems(5)] show ?thesis .
    qed
  qed
qed


lemma predict_failures:
  fixes env :: "('w, 'g, 'e) env"
  assumes "predict env x b s = Inl err" and "0 < size0 x" and "0 < b"
  shows "(\<exists>c. err = Collaborator c) \<or> err = ShapeError \<or> err = DtypeError"
proof -
  let ?n = "size0 x"
  let ?mb = "make_batches ?n b"
  let ?s0 = "s\<lparr>training := False\<rparr>"
  have ch: "chain 0 ?n ?mb" using chain_make_batches(1)[OF assms(3)] .
  have "?mb \<noteq> []" using assms(2,3) by (rule make_batches_nonempty)
  then obtain b0 bs where mb: "?mb = b0 # bs" by (cases ?mb) auto
  obtain a e where b0: "b0 = (a, e)" by (cases b0)
  from ch mb b0 have a: "a = 0" "0 < e" "e \<le> ?n" and ch': "chain e ?n bs" by simp_all
  have en: "enumerate 0 ?mb = (0, a, e) # enumerate 1 bs" by (simp add: mb b0)
  have sl: "slice [0 ..< ?n] a e = [a ..< e]" using a(3) by (rule slice_upt)
  let ?xb = "x\<lparr>rows := map (\<lambda>i. rows x ! i) [a ..< e]\<rparr>"
  have sel: "index_select x [a ..< e] = (Inr ?xb :: 'e error + tensor)"
    using a(3) by (simp add: index_select_upt)
  have pos: "list_all (\<lambda>eb. 0 < fst eb) (enumerate 1 bs)"
    by (auto simp: list_all_iff in_set_enumerate_eq)
  have ch1: "chain e ?n (map snd (enumerate 1 bs))" using ch' by simp
  show ?thesis
  proof (cases "forward env False (world s) ?xb")
    case (Inl c)
    with assms(1) have "err = Collaborator c"
      by (simp add: predict_def Let_def en sl sel collab_def bindE_def)
    then show ?thesis by blast
  next
    case (Inr ow)
    obtain out w where ow: "ow = (out, w)" by (cases ow)
    let ?z = "zeros ?n (trailing out)"
    have zs: "size0 ?z = ?n" by (simp add: zeros_def size0_def)
    show ?thesis
    proof (cases "index_put ?z [a ..< e] out :: 'e error + tensor")
      case (Inl err1)
      with assms(1) have "err = err1"
        by (simp add: predict_def Let_def en sl sel Inr ow collab_def bindE_def)
      moreover have "err1 = ShapeError \<or> err1 = DtypeError"
        using index_put_upt_Inl[OF Inl] a(3) zs by simp
      ultimately show ?thesis by blast
    next
      case ip: (Inr y1)
      from index_put_upt_Inr[OF ip] a zs
      have r: "rows y1 = take a (rows ?z) @ broadcast_rows out (e - a) (trailing ?z)
                 @ drop e (rows ?z)"
        by simp
      have sz: "size0 y1 = ?n"
        using r a zs by (simp add: size0_def length_broadcast_rows)
      let ?s1 = "s\<lparr>training := False, world := w,
                    calls := calls s @ [PredictStep False [a ..< e] out]\<rparr>"
      have step: "predict_batches env x ?n [0 ..< ?n] (enumerate 0 ?mb) None ?s0 =
                  predict_batches env x ?n [0 ..< ?n] (enumerate 1 bs) (Some y1) ?s1"
        by (simp add: en sl sel Inr ow ip collab_def Let_def)
      show ?thesis
      proof (cases "predict_batches env x ?n [0 ..< ?n] (enumerate 1 bs) (Some y1) ?s1")
        case (Inl err1)
        with assms(1) have "err = err1"
          by (simp add: predict_def Let_def step bindE_def)
        with predict_batches_Inl[OF Inl pos ch1 sz refl] show ?thesis by simp
      next
        case res: (Inr ys)
        obtain yp s1 where ys: "ys = (yp, s1)" by (cases ys)
        from predict_batches_Some[OF res[unfolded ys] pos ch1 sz refl]
        obtain y2 where "yp = Some y2" by blast
        with assms(1) res ys show ?thesis
          by (simp add: predict_def Let_def step bindE_def)
      qed
    qed
  qed
qed

section \<open>Epochs\<close>

lemma add_metrics_keeps_keys:
  "add_metrics_to_log lg ms yt yp pre = Inr lg' \<Longrightarrow> map_of lg k \<noteq> None \<Longrightarrow> map_of lg' k \<noteq> None"
proof (induction ms arbitrary: lg)
  case Nil
  then show ?case by simp
next
  case (Cons m ms)
  obtain name f where m: "m = (name, f)" by (cases m)
  from Cons.prems(1) obtain q where
    rec: "add_metrics_to_log (AList.update (pre @ name) q lg) ms yt yp pre = Inr lg'"
    by (auto simp: m split: sum.splits)
  have "map_of (AList.update (pre @ name) q lg) k \<noteq> None"
    using Cons.prems(2) by (simp add: update_conv')
  from Cons.IH[OF rec this] show ?case .
qed

lemma run_metrics_Inr:
  fixes env :: "('a, 'b, 'c) env"
  assumes "run_metrics env x y val_x val_y b ms lg s = Inr (lg', s')" and "0 < b"
  shows "\<exists>pr. calls s' = calls s @ pr \<and> list_all is_PredictStep pr
      \<and> np_rng s' = np_rng s
      \<and> training s' = (if ms \<noteq> [] then False else training s)
      \<and> (ms = [] \<longrightarrow> lg' = lg)
      \<and> (map_of lg k \<noteq> None \<longrightarrow> map_of lg' k \<noteq> None)"
proof (cases "ms = []")
  case True
  with assms show ?thesis by (simp add: run_metrics_def)
next
  case False
  from assms(1) False obtain yp1 s1 lg1 where
    p1: "predict env x b s = Inr (yp1, s1)" and
    m1: "add_metrics_to_log lg ms y yp1 ''train_'' = Inr lg1" and
    rest: "(case (val_x, val_y) of
            (Some vx, Some vy) \<Rightarrow>
              bindE (predict env vx b s1) (\<lambda>(y_val_pred, s2).
              bindE (add_metrics_to_log lg1 ms vy y_val_pred ''val_'') (\<lambda>lg2.
                Inr (lg2, s2)))
          | _ \<Rightarrow> Inr (lg1, s1)) = Inr (lg', s')"
    by (auto simp: run_metrics_def bindE_Inr_iff)
  from predict_Inr[OF p1 assms(2)] obtain evs1 where
    e1: "calls s1 = calls s @ evs1" "list_all (\<lambda>ev. is_PredictStep ev \<and> \<not> ev_mode ev) evs1"
      "training s1 = False" "np_rng s1 = np_rng s"
    by blast
  have k1: "map_of lg k \<noteq> None \<longrightarrow> map_of lg1 k \<noteq> None"
    using add_metrics_keeps_keys[OF m1] by blast
  have pr1: "list_all is_PredictStep evs1" using e1(2) by (simp add: list_all_iff)
  show ?thesis
  proof (cases "\<exists>vx vy. val_x = Some vx \<and> val_y = Some vy")
    case True
    then obtain vx vy where v: "val_x = Some vx" "val_y = Some vy" by blast
    from rest v obtain yp2 s2 where
      p2: "predict env vx b s1 = Inr (yp2, s2)" and
      m2: "add_metrics_to_log lg1 ms vy yp2 ''val_'' = Inr lg'" and s2: "s2 = s'"
      by (auto simp: bindE_Inr_iff)
    from predict_Inr[OF p2 assms(2)] obtain evs2 where
      e2: "calls s2 = calls s1 @ evs2" "list_all (\<lambda>ev. is_PredictStep ev \<and> \<not> ev_mode ev) evs2"
        "training s2 = False" "np_rng s2 = np_rng s1"
      by blast
    have pr2: "list_all is_PredictStep evs2" using e2(2) by (simp add: list_all_iff)
    have "map_of lg1 k \<noteq> None \<longrightarrow> map_of lg' k \<noteq> None"
      using add_metrics_keeps_keys[OF m2] by blast
    with k1 e1 e2 s2 pr1 pr2 False show ?thesis
      by (intro exI[of _ "evs1 @ evs2"]) simp
  next
    case no: False
    with rest have "lg' = lg1" "s' = s1" by (auto split: option.splits)
    with k1 e1 pr1 False show ?thesis by (intro exI[of _ evs1]) simp
  qed
qed


lemma fit_epoch_Inr:
  fixes env :: "('a, 'b, 'c) env"
  assumes "fit_epoch env x y val_x val_y b sh ms t idxs s = Inr ((idxs', lg), s')" and "0 < b"
  shows "idxs' = (if sh then fst (np_random_shuffle env (np_rng s) idxs) else idxs)
      \<and> np_rng s' = (if sh then snd (np_random_shuffle env (np_rng s) idxs) else np_rng s)
      \<and> training s' = (if ms \<noteq> [] then False else training s)
      \<and> (0 < size0 x \<longrightarrow> map_of lg ''train_loss'' \<noteq> None)
      \<and> (\<exists>tr pr. calls s' = calls s @ tr @ pr
            \<and> list_all (\<lambda>ev. is_TrainStep ev \<and> ev_epoch ev = t \<and> ev_mode ev = training s) tr
            \<and> list_all is_PredictStep pr
            \<and> map ev_idxs tr = map (\<lambda>(a, e). slice idxs' a e) (make_batches (size0 x) b))"
proof -
  define idxs1 where "idxs1 = (if sh then fst (np_random_shuffle env (np_rng s) idxs) else idxs)"
  define g where "g = (if sh then snd (np_random_shuffle env (np_rng s) idxs) else np_rng s)"
  let ?s0 = "s\<lparr>np_rng := g\<rparr>"
  let ?mb = "make_batches (size0 x) b"
  have sh: "(if sh then np_random_shuffle env (np_rng s) idxs else (idxs, np_rng s)) = (idxs1, g)"
    by (simp add: idxs1_def g_def)
  from assms(1) obtain n_run epoch_loss lg0 s1 where
    rb: "run_batches env x y t idxs1 ?mb (0, 0, []) ?s0 = Inr ((n_run, epoch_loss, lg0), s1)" and
    rm: "run_metrics env x y val_x val_y b ms lg0 s1 = Inr (lg, s')" and
    id: "idxs' = idxs1"
    unfolding fit_epoch_def sh by (auto simp: bindE_Inr_iff Let_def)
  from run_batches_Inr[OF rb] obtain tr where
    1: "calls s1 = calls ?s0 @ tr"
       "list_all (\<lambda>ev. is_TrainStep ev \<and> ev_epoch ev = t \<and> ev_mode ev = training ?s0) tr"
       "map ev_idxs tr = map (\<lambda>(a, e). slice idxs1 a e) ?mb"
       "?mb \<noteq> [] \<longrightarrow> map_of lg0 ''train_loss'' = Some (fdiv epoch_loss (float_of_int n_run))"
       "training s1 = training ?s0" "np_rng s1 = np_rng ?s0"
    by blast
  from run_metrics_Inr[OF rm assms(2), of "''train_loss''"] obtain pr where
    2: "calls s' = calls s1 @ pr" "list_all is_PredictStep pr" "np_rng s' = np_rng s1"
       "training s' = (if ms \<noteq> [] then False else training s1)"
       "map_of lg0 ''train_loss'' \<noteq> None \<longrightarrow> map_of lg ''train_loss'' \<noteq> None"
    by blast
  have tl: "0 < size0 x \<longrightarrow> map_of lg ''train_loss'' \<noteq> None"
    using 1(4) 2(5) make_batches_nonempty[of "size0 x" b] assms(2) by auto
  have "calls s' = calls s @ tr @ pr" using 1 2 by simp
  moreover have "list_all (\<lambda>ev. is_TrainStep ev \<and> ev_epoch ev = t \<and> ev_mode ev = training s) tr"
    using 1(2) by simp
  moreover have "map ev_idxs tr = map (\<lambda>(a, e). slice idxs' a e) ?mb" using 1(3) id by simp
  ultimately have "\<exists>tr pr. calls s' = calls s @ tr @ pr
            \<and> list_all (\<lambda>ev. is_TrainStep ev \<and> ev_epoch ev = t \<and> ev_mode ev = training s) tr
            \<and> list_all is_PredictStep pr
            \<and> map ev_idxs tr = map (\<lambda>(a, e). slice idxs' a e) ?mb"
    using 2(2) by blast
  moreover have "idxs' = (if sh then fst (np_random_shuffle env (np_rng s) idxs) else idxs)"
    using id by (simp add: idxs1_def)
  moreover have "np_rng s' = (if sh then snd (np_random_shuffle env (np_rng s) idxs) else np_rng s)"
    using 1 2 by (simp add: g_def)
  moreover have "training s' = (if ms \<noteq> [] then False else training s)"
    using 1 2 by simp
  ultimately show ?thesis using tl by blast
qed

lemma train_batches_of_append:
  "train_batches_of t (xs @ ys) = train_batches_of t xs @ train_batches_of t ys"
  by (simp add: train_batches_of_def)

lemma train_batches_of_train:
  "list_all (\<lambda>ev. is_TrainStep ev \<and> ev_epoch ev = t \<and> P ev) tr \<Longrightarrow>
   train_batches_of t' tr = (if t' = t then map ev_idxs tr else [])"
  by (induction tr) (auto simp: train_batches_of_def)

lemma train_batches_of_predict:
  "list_all is_PredictStep pr \<Longrightarrow> train_batches_of t pr = []"
  by (induction pr) (auto simp: train_batches_of_def event.disc_eq_case split: event.splits)

lemma train_batches_of_other:
  "\<forall>ev\<in>set evs. is_TrainStep ev \<longrightarrow> ev_epoch ev \<in> T \<Longrightarrow> t \<notin> T \<Longrightarrow> train_batches_of t evs = []"
  by (induction evs) (auto simp: train_batches_of_def)


lemma fit_epochs_Inr:
  fixes env :: "('a, 'b, 'c) env"
  assumes "fit_epochs env x y val_x val_y b sh ms ts idxs logs s = Inr (logs', s')"
    and "0 < b" and "distinct ts"
  shows "\<exists>evs new_logs. calls s' = calls s @ evs
     \<and> logs' = logs @ new_logs \<and> length new_logs = length ts
     \<and> (0 < size0 x \<longrightarrow> list_all (\<lambda>lg. map_of lg ''train_loss'' \<noteq> None) new_logs)
     \<and> (\<forall>ev\<in>set evs. is_TrainStep ev \<longrightarrow> ev_epoch ev \<in> set ts)
     \<and> (\<forall>j<length ts. train_batches_of (ts ! j) evs =
           map (\<lambda>(a, e). slice (shuffle_orders env sh (length ts) (np_rng s) idxs ! j) a e)
             (make_batches (size0 x) b))
     \<and> (ms \<noteq> [] \<longrightarrow>
          (\<forall>ev\<in>set evs. is_TrainStep ev \<longrightarrow> ev_mode ev = (ev_epoch ev = hd ts \<and> training s)))
     \<and> (ms = [] \<longrightarrow>
          (\<forall>ev\<in>set evs. is_TrainStep ev \<longrightarrow> ev_mode ev = training s) \<and> training s' = training s)
     \<and> (ms \<noteq> [] \<longrightarrow> ts \<noteq> [] \<longrightarrow> \<not> training s')"
  using assms(1,3)
proof (induction ts arbitrary: idxs logs s)
  case Nil
  then show ?case by simp
next
  case (Cons t ts)
  let ?mb = "make_batches (size0 x) b"
  from Cons.prems(1) obtain idxs1 lg s1 where
    ep: "fit_epoch env x y val_x val_y b sh ms t idxs s = Inr ((idxs1, lg), s1)" and
    rec: "fit_epochs env x y val_x val_y b sh ms ts idxs1 (logs @ [lg]) s1 = Inr (logs', s')"
    by (auto split: sum.splits)
  from Cons.prems(2) have dist: "distinct ts" and tn: "t \<notin> set ts" by simp_all
  from fit_epoch_Inr[OF ep assms(2)] obtain tr pr where
    e: "idxs1 = (if sh then fst (np_random_shuffle env (np_rng s) idxs) else idxs)"
       "np_rng s1 = (if sh then snd (np_random_shuffle env (np_rng s) idxs) else np_rng s)"
       "training s1 = (if ms \<noteq> [] then False else training s)"
       "0 < size0 x \<longrightarrow> map_of lg ''train_loss'' \<noteq> None"
       "calls s1 = calls s @ tr @ pr"
       "list_all (\<lambda>ev. is_TrainStep ev \<and> ev_epoch ev = t \<and> ev_mode ev = training s) tr"
       "list_all is_PredictStep pr"
       "map ev_idxs tr = map (\<lambda>(a, e). slice idxs1 a e) ?mb"
    by (elim conjE exE) (rule that, assumption+)
  from Cons.IH[OF rec dist] obtain evs new_logs where
    ih: "calls s' = calls s1 @ evs"
       "logs' = (logs @ [lg]) @ new_logs" "length new_logs = length ts"
       "0 < size0 x \<longrightarrow> list_all (\<lambda>lg. map_of lg ''train_loss'' \<noteq> None) new_logs"
       "\<forall>ev\<in>set evs. is_TrainStep ev \<longrightarrow> ev_epoch ev \<in> set ts"
       "\<forall>j<length ts. train_batches_of (ts ! j) evs =
           map (\<lambda>(a, e). slice (shuffle_orders env sh (length ts) (np_rng s1) idxs1 ! j) a e) ?mb"
       "ms \<noteq> [] \<longrightarrow>
          (\<forall>ev\<in>set evs. is_TrainStep ev \<longrightarrow> ev_mode ev = (ev_epoch ev = hd ts \<and> training s1))"
       "ms = [] \<longrightarrow>
          (\<forall>ev\<in>set evs. is_TrainStep ev \<longrightarrow> ev_mode ev = training s1) \<and> training s' = training s1"
       "ms \<noteq> [] \<longrightarrow> ts \<noteq> [] \<longrightarrow> \<not> training s'"
    by (elim conjE exE) (rule that, assumption+)
  let ?evs = "tr @ pr @ evs"
  let ?logs = "lg # new_logs"
  have so: "shuffle_orders env sh (Suc (length ts)) (np_rng s) idxs =
            idxs1 # shuffle_orders env sh (length ts) (np_rng s1) idxs1"
    using e(1,2) by (simp add: Let_def split: prod.splits)
  have pr_not_train: "\<forall>ev\<in>set pr. \<not> is_TrainStep ev"
    using e(7) by (auto simp: list_all_iff event.disc_eq_case split: event.splits)
  have a: "calls s' = calls s @ ?evs" using e(5) ih(1) by simp
  have b: "logs' = logs @ ?logs" "length ?logs = length (t # ts)" using ih(2,3) by simp_all
  have c: "0 < size0 x \<longrightarrow> list_all (\<lambda>lg. map_of lg ''train_loss'' \<noteq> None) ?logs"
    using e(4) ih(4) by simp
  have d: "\<forall>ev\<in>set ?evs. is_TrainStep ev \<longrightarrow> ev_epoch ev \<in> set (t # ts)"
    using e(6) pr_not_train ih(5) by (auto simp: list_all_iff)
  have f: "\<forall>j<length (t # ts). train_batches_of ((t # ts) ! j) ?evs =
           map (\<lambda>(a, e). slice (shuffle_orders env sh (length (t # ts)) (np_rng s) idxs ! j) a e) ?mb"
  proof (intro allI impI)
    fix j assume j: "j < length (t # ts)"
    show "train_batches_of ((t # ts) ! j) ?evs =
           map (\<lambda>(a, e). slice (shuffle_orders env sh (length (t # ts)) (np_rng s) idxs ! j) a e) ?mb"
    proof (cases j)
      case 0
      have "train_batches_of t evs = []"
        using train_batches_of_other[OF ih(5) tn] .
      then show ?thesis
        using 0 e(8) train_batches_of_train[OF e(6), of t] train_batches_of_predict[OF e(7), of t]
        by (simp add: train_batches_of_append so del: shuffle_orders.simps)
    next
      case (Suc j')
      with j have j': "j' < length ts" by simp
      then have ne: "ts ! j' \<noteq> t" using tn nth_mem[of j' ts] by auto
      have "train_batches_of (ts ! j') tr = []"
        using train_batches_of_train[OF e(6), of "ts ! j'"] ne by simp
      then show ?thesis
        using Suc j' ih(6) train_batches_of_predict[OF e(7), of "ts ! j'"]
        by (simp add: train_batches_of_append so del: shuffle_orders.simps)
    qed
  qed
  have g: "ms \<noteq> [] \<longrightarrow>
          (\<forall>ev\<in>set ?evs. is_TrainStep ev \<longrightarrow> ev_mode ev = (ev_epoch ev = hd (t # ts) \<and> training s))"
  proof (intro impI ballI)
    fix ev assume ms: "ms \<noteq> []" and ev: "ev \<in> set ?evs" and tr: "is_TrainStep ev"
    from ev tr pr_not_train consider "ev \<in> set tr" | "ev \<in> set evs" by auto
    then show "ev_mode ev = (ev_epoch ev = hd (t # ts) \<and> training s)"
    proof cases
      case 1
      then show ?thesis using e(6) by (auto simp: list_all_iff)
    next
      case 2
      with ih(5) tr have "ev_epoch ev \<in> set ts" by blast
      with tn have "ev_epoch ev \<noteq> t" by auto
      moreover have "\<not> ev_mode ev" using ih(7) ms 2 tr e(3) by simp
      ultimately show ?thesis by simp
    qed
  qed
  have h: "ms = [] \<longrightarrow>
          (\<forall>ev\<in>set ?evs. is_TrainStep ev \<longrightarrow> ev_mode ev = training s) \<and> training s' = training s"
    using e(3,6) ih(8) pr_not_train by (auto simp: list_all_iff)
  have i: "ms \<noteq> [] \<longrightarrow> t # ts \<noteq> [] \<longrightarrow> \<not> training s'"
  proof (cases "ts = []")
    case True
    with rec have "s' = s1" by simp
    with e(3) show ?thesis by simp
  next
    case False
    with ih(9) show ?thesis by simp
  qed
  show ?case
    apply (rule exI[of _ ?evs])
    apply (rule exI[of _ ?logs])
    apply (intro conjI)
            apply (rule a)
           apply (rule b(1))
          apply (rule b(2))
         apply (rule c)
        apply (rule d)
       apply (rule f)
      apply (rule g)
     apply (rule h)
    apply (rule i)
    done
qed

lemma seed_generators_Inr:
  "seed_generators env seed s = Inr s0 \<Longrightarrow> calls s0 = calls s \<and> training s0 = training s"
  by (auto simp: seed_generators_def bindE_Inr_iff split: option.splits if_splits)

lemma fit_Inr:
  fixes env :: "('a, 'b, 'c) env"
  assumes "fit env x y b epochs vs vd sh ie seed ms s = Inr (logs, s')"
  shows "\<exists>s0 w x1 y1 val_x val_y.
           seed_generators env seed s = Inr s0
         \<and> prepare_validation x y vs vd = (x1, y1, val_x, val_y)
         \<and> optimizer env (world s0) = Inr w
         \<and> fit_epochs env x1 y1 val_x val_y b sh ms [ie .. epochs - 1] [0 ..< size0 x1] []
              (s0\<lparr>world := w, training := True\<rparr>) = Inr (logs, s')"
proof -
  obtain x1 y1 val_x val_y where pv: "prepare_validation x y vs vd = (x1, y1, val_x, val_y)"
    by (cases "prepare_validation x y vs vd") auto
  from assms show ?thesis
    unfolding fit_def pv by (auto simp: bindE_Inr_iff collab_Inr_iff Let_def)
qed

lemma shuffle_orders_length: "length (shuffle_orders env sh k g idxs) = k"
  by (induction k arbitrary: g idxs) (auto simp: Let_def split: prod.splits)



lemma fit_events:
  fixes env :: "('a, 'b, 'c) env"
  assumes "fit env x y b epochs vs vd sh ie seed ms s = Inr (logs, s')" and "0 < b"
  shows "\<exists>s0 evs. seed_generators env seed s = Inr s0
     \<and> calls s' = calls s @ evs
     \<and> length logs = nat (epochs - ie)
     \<and> (0 < size0 (fst (prepare_validation x y vs vd)) \<longrightarrow>
          list_all (\<lambda>lg. map_of lg ''train_loss'' \<noteq> None) logs)
     \<and> (\<forall>ev\<in>set evs. is_TrainStep ev \<longrightarrow> ie \<le> ev_epoch ev \<and> ev_epoch ev < epochs)
     \<and> (\<forall>t. ie \<le> t \<and> t < epochs \<longrightarrow> train_batches_of t evs =
           map (\<lambda>(a, e). slice (shuffle_orders env sh (nat (epochs - ie)) (np_rng s0)
                  [0 ..< size0 (fst (prepare_validation x y vs vd))] ! nat (t - ie)) a e)
             (make_batches (size0 (fst (prepare_validation x y vs vd))) b))
     \<and> (ms \<noteq> [] \<longrightarrow> (\<forall>ev\<in>set evs. is_TrainStep ev \<longrightarrow> ev_mode ev = (ev_epoch ev = ie)))
     \<and> (ms = [] \<longrightarrow> (\<forall>ev\<in>set evs. is_TrainStep ev \<longrightarrow> ev_mode ev))
     \<and> (ms \<noteq> [] \<longrightarrow> ie < epochs \<longrightarrow> \<not> training s')"
proof -
  from fit_Inr[OF assms(1)] obtain s0 w x1 y1 val_x val_y where
    sg: "seed_generators env seed s = Inr s0" and
    pv: "prepare_validation x y vs vd = (x1, y1, val_x, val_y)" and
    fe: "fit_epochs env x1 y1 val_x val_y b sh ms [ie .. epochs - 1] [0 ..< size0 x1] []
              (s0\<lparr>world := w, training := True\<rparr>) = Inr (logs, s')"
    by blast
  let ?ts = "[ie .. epochs - 1]"
  let ?s1 = "s0\<lparr>world := w, training := True\<rparr>"
  have len: "length ?ts = nat (epochs - ie)" by simp
  from fit_epochs_Inr[OF fe assms(2) distinct_upto] obtain evs new_logs where
    r: "calls s' = calls ?s1 @ evs"
       "logs = [] @ new_logs" "length new_logs = length ?ts"
       "0 < size0 x1 \<longrightarrow> list_all (\<lambda>lg. map_of lg ''train_loss'' \<noteq> None) new_logs"
       "\<forall>ev\<in>set evs. is_TrainStep ev \<longrightarrow> ev_epoch ev \<in> set ?ts"
       "\<forall>j<length ?ts. train_batches_of (?ts ! j) evs =
           map (\<lambda>(a, e). slice (shuffle_orders env sh (length ?ts) (np_rng ?s1) [0 ..< size0 x1] ! j) a e)
             (make_batches (size0 x1) b)"
       "ms \<noteq> [] \<longrightarrow>
          (\<forall>ev\<in>set evs. is_TrainStep ev \<longrightarrow> ev_mode ev = (ev_epoch ev = hd ?ts \<and> training ?s1))"
       "ms = [] \<longrightarrow>
          (\<forall>ev\<in>set evs. is_TrainStep ev \<longrightarrow> ev_mode ev = training ?s1) \<and> training s' = training ?s1"
       "ms \<noteq> [] \<longrightarrow> ?ts \<noteq> [] \<longrightarrow> \<not> training s'"
    by (elim conjE exE) (rule that, assumption+)
  have x1: "fst (prepare_validation x y vs vd) = x1" using pv by simp
  have a: "calls s' = calls s @ evs" using r(1) seed_generators_Inr[OF sg] by simp
  have b: "length logs = nat (epochs - ie)" using r(2,3) len by simp
  have c: "0 < size0 x1 \<longrightarrow> list_all (\<lambda>lg. map_of lg ''train_loss'' \<noteq> None) logs"
    using r(2,4) by simp
  have d: "\<forall>ev\<in>set evs. is_TrainStep ev \<longrightarrow> ie \<le> ev_epoch ev \<and> ev_epoch ev < epochs"
    using r(5) by auto
  have e: "\<forall>t. ie \<le> t \<and> t < epochs \<longrightarrow> train_batches_of t evs =
           map (\<lambda>(a, e). slice (shuffle_orders env sh (nat (epochs - ie)) (np_rng s0)
                  [0 ..< size0 x1] ! nat (t - ie)) a e) (make_batches (size0 x1) b)"
  proof (intro allI impI)
    fix t assume t: "ie \<le> t \<and> t < epochs"
    then have j: "nat (t - ie) < length ?ts" by simp
    have nth: "?ts ! nat (t - ie) = t" using t by (simp add: nth_upto)
    have rng: "np_rng ?s1 = np_rng s0" by simp
    from r(6) j have "train_batches_of (?ts ! nat (t - ie)) evs =
           map (\<lambda>(a, e). slice (shuffle_orders env sh (length ?ts) (np_rng ?s1)
                  [0 ..< size0 x1] ! nat (t - ie)) a e) (make_batches (size0 x1) b)"
      by blast
    then show "train_batches_of t evs =
           map (\<lambda>(a, e). slice (shuffle_orders env sh (nat (epochs - ie)) (np_rng s0)
                  [0 ..< size0 x1] ! nat (t - ie)) a e) (make_batches (size0 x1) b)"
      unfolding nth len rng .
  qed
  have hd: "hd ?ts = ie" if "ev_epoch ev \<in> set ?ts" for ev :: event
  proof -
    from that have "ie \<le> epochs - 1" by simp
    then have "?ts = ie # [ie + 1 .. epochs - 1]" by (rule upto_rec1)
    then show ?thesis by simp
  qed
  have f: "ms \<noteq> [] \<longrightarrow> (\<forall>ev\<in>set evs. is_TrainStep ev \<longrightarrow> ev_mode ev = (ev_epoch ev = ie))"
  proof (intro impI ballI)
    fix ev assume ms: "ms \<noteq> []" and ev: "ev \<in> set evs" "is_TrainStep ev"
    with r(5) have mem: "ev_epoch ev \<in> set ?ts" by blast
    from r(7) ms ev have "ev_mode ev = (ev_epoch ev = hd ?ts \<and> training ?s1)" by blast
    then show "ev_mode ev = (ev_epoch ev = ie)" using hd[OF mem] by simp
  qed
  have g: "ms = [] \<longrightarrow> (\<forall>ev\<in>set evs. is_TrainStep ev \<longrightarrow> ev_mode ev)"
    using r(8) by simp
  have h: "ms \<noteq> [] \<longrightarrow> ie < epochs \<longrightarrow> \<not> training s'"
    using r(9) by auto
  show ?thesis
    unfolding x1
    apply (rule exI[of _ s0])
    apply (rule exI[of _ evs])
    apply (intro conjI)
            apply (rule sg)
           apply (rule a)
          apply (rule b)
         apply (rule c)
        apply (rule d)
       apply (rule e)
      apply (rule f)
     apply (rule g)
    apply (rule h)
    done
qed

section \<open>Validation data\<close>

lemma pow2_pos: "0 < pow2 k"
  by (simp add: pow2_def)

lemma round_half_even_nonneg: "0 \<le> r \<Longrightarrow> 0 \<le> round_half_even r"
  by (auto simp: round_half_even_def Let_def)

lemma pow2_powi: "pow2 k = 2 powi k"
  by (simp add: pow2_def power_int_def power_one_over inverse_eq_divide)

lemma pow2_add: "pow2 (i + j) = pow2 i * pow2 j"
  by (simp add: pow2_powi power_int_add)

lemma pow2_nat: "0 \<le> k \<Longrightarrow> pow2 k = 2 ^ nat k"
  by (simp add: pow2_def)

lemma pow2_mono: "i \<le> j \<Longrightarrow> pow2 i \<le> pow2 j"
  by (simp add: pow2_powi power_int_increasing)

lemma bitlen_rat_bounds:
  assumes "0 < n"
  shows "pow2 (bitlen n - 1) \<le> of_int n" and "of_int n < pow2 (bitlen n)"
proof -
  from assms have b1: "1 \<le> bitlen n" by (auto simp: bitlen_alt_def)
  from bitlen_bounds[OF assms] have lo: "2 ^ nat (bitlen n - 1) \<le> n" and hi: "n < 2 ^ nat (bitlen n)"
    by simp_all
  have "(of_int (2 ^ nat (bitlen n - 1)) :: rat) \<le> of_int n" using lo by (simp only: of_int_le_iff)
  then show "pow2 (bitlen n - 1) \<le> of_int n" using b1 by (simp add: pow2_nat)
  have "(of_int n :: rat) < of_int (2 ^ nat (bitlen n))" using hi by (simp only: of_int_less_iff)
  then show "of_int n < pow2 (bitlen n)" using b1 by (simp add: pow2_nat)
qed

lemma ilog2_bounds:
  assumes "0 < a"
  shows "pow2 (ilog2 a) \<le> a" and "a < pow2 (ilog2 a + 1)"
proof -
  obtain n d where q: "quotient_of a = (n, d)" by (cases "quotient_of a")
  have d: "0 < d" using quotient_of_denom_pos[OF q] .
  have a: "a = of_int n / of_int d" using quotient_of_div[OF q] .
  have n: "0 < n" using assms d a by (simp add: zero_less_divide_iff)
  let ?k = "bitlen n - bitlen d"
  have dr: "(0 :: rat) < of_int d" using d by simp
  have up: "a < pow2 (?k + 1)"
  proof -
    have "a * pow2 (bitlen d - 1) \<le> a * of_int d"
      using bitlen_rat_bounds(1)[OF d] assms by (simp add: mult_left_mono)
    also have "\<dots> = of_int n" using a dr by simp
    also have "\<dots> < pow2 (bitlen n)" using bitlen_rat_bounds(2)[OF n] .
    also have "\<dots> = pow2 (?k + 1) * pow2 (bitlen d - 1)"
      by (simp add: pow2_add[symmetric])
    finally show ?thesis using pow2_pos[of "bitlen d - 1"] by simp
  qed
  have lo: "pow2 (?k - 1) \<le> a"
  proof -
    have "pow2 (?k - 1) * of_int d \<le> pow2 (?k - 1) * pow2 (bitlen d)"
      using bitlen_rat_bounds(2)[OF d] pow2_pos[of "?k - 1"] by (simp add: mult_left_mono)
    also have "\<dots> = pow2 (bitlen n - 1)" by (simp add: pow2_add[symmetric])
    also have "\<dots> \<le> of_int n" using bitlen_rat_bounds(1)[OF n] .
    also have "\<dots> = a * of_int d" using a dr by simp
    finally show ?thesis using dr by simp
  qed
  have il: "ilog2 a = (if pow2 ?k \<le> a then ?k else ?k - 1)"
    by (simp add: ilog2_def q Let_def)
  show "pow2 (ilog2 a) \<le> a" using lo by (simp add: il)
  show "a < pow2 (ilog2 a + 1)" using up by (auto simp: il)
qed

lemma round_half_even_error: "\<bar>of_int (round_half_even r) - r\<bar> \<le> 1 / 2"
proof -
  define m where "m = \<lfloor>r\<rfloor>"
  define d where "d = r - of_int m"
  have d: "0 \<le> d" "d < 1" unfolding d_def m_def by linarith+
  have r: "r = of_int m + d" by (simp add: d_def)
  have "round_half_even r = (if d < 1 / 2 \<or> (d = 1 / 2 \<and> even m) then m else m + 1)"
    by (simp add: round_half_even_def Let_def m_def d_def)
  then show ?thesis using d unfolding r by (auto simp: abs_if)
qed

lemma round_binary64_error:
  assumes "0 \<le> q"
  shows "\<bar>round_binary64 q - q\<bar> \<le> q / 2 ^ 53"
proof (cases "q = 0")
  case True
  then show ?thesis by (simp add: round_binary64_def)
next
  case False
  with assms have q: "0 < q" by simp
  define e where "e = ilog2 q - 52"
  define s where "s = q * pow2 (- e)"
  define m where "m = round_half_even s"
  have fl: "round_binary64 q = of_int m * pow2 e"
    using q by (simp add: round_binary64_def Let_def e_def s_def m_def)
  have "pow2 (- e) * pow2 e = 1" by (simp add: pow2_add[symmetric] pow2_def)
  then have se: "s * pow2 e = q" by (simp add: s_def mult.assoc)
  have "round_binary64 q - q = of_int m * pow2 e - s * pow2 e"
    unfolding fl using se by simp
  then have "\<bar>round_binary64 q - q\<bar> = \<bar>(of_int m - s) * pow2 e\<bar>"
    by (simp add: algebra_simps)
  also have "\<dots> = \<bar>of_int m - s\<bar> * pow2 e"
    using pow2_pos[of e] by (simp add: abs_mult)
  also have "\<dots> \<le> (1 / 2) * pow2 e"
    using round_half_even_error[of s] pow2_pos[of e] unfolding m_def
    by (intro mult_right_mono) simp_all
  also have "\<dots> = pow2 (ilog2 q) / 2 ^ 53"
  proof -
    have "pow2 (ilog2 q) = pow2 e * pow2 52" by (simp add: e_def pow2_add[symmetric])
    then show ?thesis by (simp add: pow2_def)
  qed
  also have "\<dots> \<le> q / 2 ^ 53"
    using ilog2_bounds(1)[OF q] by (simp add: divide_right_mono)
  finally show ?thesis .
qed

lemma round_binary64_bounds:
  assumes "0 \<le> q"
  shows "q * (1 - 1 / 2 ^ 53) \<le> round_binary64 q" and "round_binary64 q \<le> q * (1 + 1 / 2 ^ 53)"
proof -
  define c where "c = q / 2 ^ 53"
  have e: "\<bar>round_binary64 q - q\<bar> \<le> c" unfolding c_def by (rule round_binary64_error[OF assms])
  have 1: "round_binary64 q - q \<le> c" using e by (rule abs_le_D1)
  have 2: "- (round_binary64 q - q) \<le> c" using e by (rule abs_le_D2)
  have "q * (1 - 1 / 2 ^ 53) = q - c" "q * (1 + 1 / 2 ^ 53) = q + c"
    by (simp_all add: c_def algebra_simps)
  then show "q * (1 - 1 / 2 ^ 53) \<le> round_binary64 q" "round_binary64 q \<le> q * (1 + 1 / 2 ^ 53)"
    using 1 2 by simp_all
qed

lemma round_binary64_nonneg: "0 \<le> q \<Longrightarrow> 0 \<le> round_binary64 q"
proof -
  assume q: "0 \<le> q"
  then have "0 \<le> q * (1 - 1 / 2 ^ 53)" by simp
  also have "\<dots> \<le> round_binary64 q" using q by (rule round_binary64_bounds(1))
  finally show ?thesis .
qed

lemma split_float_bounds:
  fixes n :: nat and f :: rat
  assumes "0 < f" and "f < 1"
  defines "r \<equiv> of_nat n * (1 - f)"
  defines "F \<equiv> fmul (float_of_int (int n)) (fsub 1 f)"
  shows "r * (1 - 1 / 2 ^ 51) \<le> F" and "F \<le> r * (1 + 1 / 2 ^ 51)" and "0 \<le> F"
proof -
  define u :: rat where "u = 1 / 2 ^ 53"
  define N' where "N' = float_of_int (int n)"
  define g where "g = fsub 1 f"
  have u: "0 \<le> u" "u \<le> 1" by (simp_all add: u_def)
  have n0: "(0 :: rat) \<le> of_nat n" by simp
  have f0: "0 \<le> 1 - f" using assms(2) by simp
  have N'lo: "of_nat n * (1 - u) \<le> N'" and N'hi: "N' \<le> of_nat n * (1 + u)"
    using round_binary64_bounds[of "of_nat n"] by (simp_all add: N'_def float_of_int_def u_def)
  have N'0: "0 \<le> N'" by (simp add: N'_def float_of_int_def round_binary64_nonneg)
  have glo: "(1 - f) * (1 - u) \<le> g" and ghi: "g \<le> (1 - f) * (1 + u)"
    using round_binary64_bounds[OF f0] by (simp_all add: g_def fsub_def u_def)
  have g0: "0 \<le> g" using f0 by (simp add: g_def fsub_def round_binary64_nonneg)
  have p0: "0 \<le> N' * g" using N'0 g0 by simp
  have F: "F = round_binary64 (N' * g)" by (simp add: F_def fmul_def N'_def g_def)
  have Flo: "N' * g * (1 - u) \<le> F" and Fhi: "F \<le> N' * g * (1 + u)"
    using round_binary64_bounds[OF p0] by (simp_all add: F u_def)
  show "0 \<le> F" unfolding F using p0 by (rule round_binary64_nonneg)
  have r0: "0 \<le> r" using n0 f0 by (simp add: r_def)
  have "N' * g \<le> (of_nat n * (1 + u)) * ((1 - f) * (1 + u))"
    using N'hi ghi N'0 g0 u f0 by (intro mult_mono) simp_all
  then have "N' * g * (1 + u) \<le> (of_nat n * (1 + u)) * ((1 - f) * (1 + u)) * (1 + u)"
    using u by (intro mult_right_mono) simp_all
  with Fhi have "F \<le> r * ((1 + u) * (1 + u) * (1 + u))"
    by (simp add: r_def algebra_simps)
  also have "\<dots> \<le> r * (1 + 1 / 2 ^ 51)"
    using r0 by (intro mult_left_mono) (simp_all add: u_def)
  finally show "F \<le> r * (1 + 1 / 2 ^ 51)" .
  have lo1: "0 \<le> of_nat n * (1 - u)" "0 \<le> (1 - f) * (1 - u)" using u f0 by simp_all
  have "(of_nat n * (1 - u)) * ((1 - f) * (1 - u)) \<le> N' * g"
    using N'lo glo lo1 by (intro mult_mono) simp_all
  then have "(of_nat n * (1 - u)) * ((1 - f) * (1 - u)) * (1 - u) \<le> N' * g * (1 - u)"
    using u by (intro mult_right_mono) simp_all
  with Flo have "r * ((1 - u) * (1 - u) * (1 - u)) \<le> F"
    by (simp add: r_def algebra_simps)
  moreover have "r * (1 - 1 / 2 ^ 51) \<le> r * ((1 - u) * (1 - u) * (1 - u))"
    using r0 by (intro mult_left_mono) (simp_all add: u_def)
  ultimately show "r * (1 - 1 / 2 ^ 51) \<le> F" by simp
qed

lemma split_index_bounds:
  assumes "0 < f" and "f < 1"
  shows "\<lfloor>of_nat n * (1 - f) * (1 - 1 / 2 ^ 51)\<rfloor> \<le> split_index n f"
    and "split_index n f \<le> \<lfloor>of_nat n * (1 - f) * (1 + 1 / 2 ^ 51)\<rfloor>"
    and "0 \<le> split_index n f"
    and "n < 2 ^ 51 \<Longrightarrow> split_index n f \<le> int n"
proof -
  let ?F = "fmul (float_of_int (int n)) (fsub 1 f)"
  note b = split_float_bounds[OF assms, of n]
  have si: "split_index n f = \<lfloor>?F\<rfloor>" using b(3) by (simp add: split_index_def int_of_float_def)
  show "\<lfloor>of_nat n * (1 - f) * (1 - 1 / 2 ^ 51)\<rfloor> \<le> split_index n f"
    unfolding si using b(1) by (rule floor_mono)
  show hi: "split_index n f \<le> \<lfloor>of_nat n * (1 - f) * (1 + 1 / 2 ^ 51)\<rfloor>"
    unfolding si using b(2) by (rule floor_mono)
  show "0 \<le> split_index n f" unfolding si using b(3) by simp
  show "split_index n f \<le> int n" if n: "n < 2 ^ 51"
  proof -
    have "(of_nat n :: rat) < of_nat (2 ^ 51)" using n by (simp only: of_nat_less_iff)
    then have n': "(of_nat n :: rat) < 2 ^ 51" by simp
    have "of_nat n * (1 - f) \<le> (of_nat n :: rat)"
      using assms by (simp add: mult_left_le)
    then have "of_nat n * (1 - f) * (1 + 1 / 2 ^ 51) \<le> of_nat n * (1 + 1 / 2 ^ 51)"
      by (intro mult_right_mono) simp_all
    also have "\<dots> = of_nat n + of_nat n / 2 ^ 51" by (simp add: algebra_simps)
    also have "\<dots> < of_nat n + 1" using n' by simp
    finally have "of_nat n * (1 - f) * (1 + 1 / 2 ^ 51) < of_int (int n + 1)" by simp
    then have "\<lfloor>of_nat n * (1 - f) * (1 + 1 / 2 ^ 51)\<rfloor> < int n + 1" by (simp only: floor_less_iff)
    with hi show ?thesis by simp
  qed
qed

lemma split_index_nonneg:
  assumes "f < 1"
  shows "0 \<le> split_index n f"
proof -
  have "0 \<le> fsub 1 f" using assms by (simp add: fsub_def round_binary64_nonneg)
  moreover have "0 \<le> float_of_int (int n)" by (simp add: float_of_int_def round_binary64_nonneg)
  ultimately have "0 \<le> fmul (float_of_int (int n)) (fsub 1 f)"
    by (simp add: fmul_def round_binary64_nonneg)
  then show ?thesis by (simp add: split_index_def int_of_float_def)
qed

lemma slice_to_nonneg: "0 \<le> k \<Longrightarrow> slice_to x k = x\<lparr>rows := take (nat k) (rows x)\<rparr>"
  by (simp add: slice_to_def slice_pos_def size0_def min_def)

lemma slice_from_nonneg: "0 \<le> k \<Longrightarrow> slice_from x k = x\<lparr>rows := drop (nat k) (rows x)\<rparr>"
  by (simp add: slice_from_def slice_pos_def size0_def min_def)

lemma fit_prepared:
  "fit env x y b epochs vs vd sh ie seed ms s =
   (case prepare_validation x y vs vd of
      (x1, y1, val_x, val_y) \<Rightarrow> fit env x1 y1 b epochs vs (Some (val_x, val_y)) sh ie seed ms s)"
  by (simp add: fit_def prepare_validation_def split: prod.splits option.splits)

lemma split_index_near_floor:
  assumes "0 < f" and "f < 1" and "n < 2 ^ 51"
  shows "\<bar>split_index n f - \<lfloor>of_nat n * (1 - f)\<rfloor>\<bar> \<le> 1"
proof -
  define r :: rat where "r = of_nat n * (1 - f)"
  have "(of_nat n :: rat) < of_nat (2 ^ 51)" using assms(3) by (simp only: of_nat_less_iff)
  then have n': "(of_nat n :: rat) < 2 ^ 51" by simp
  have r0: "0 \<le> r" using assms by (simp add: r_def)
  have "r \<le> of_nat n" using assms by (simp add: r_def mult_left_le)
  with n' have r51: "r < 2 ^ 51" by simp
  then have d: "r / 2 ^ 51 < 1" by simp
  have d0: "0 \<le> r / 2 ^ 51" using r0 by simp
  have "r * (1 + 1 / 2 ^ 51) = r + r / 2 ^ 51" by (simp add: algebra_simps)
  also have "\<dots> \<le> r + 1" using d by simp
  finally have "\<lfloor>r * (1 + 1 / 2 ^ 51)\<rfloor> \<le> \<lfloor>r + 1\<rfloor>" by (rule floor_mono)
  then have hi: "\<lfloor>r * (1 + 1 / 2 ^ 51)\<rfloor> \<le> \<lfloor>r\<rfloor> + 1" by simp
  have "r - 1 \<le> r - r / 2 ^ 51" using d by simp
  also have "\<dots> = r * (1 - 1 / 2 ^ 51)" by (simp add: algebra_simps)
  finally have "\<lfloor>r - 1\<rfloor> \<le> \<lfloor>r * (1 - 1 / 2 ^ 51)\<rfloor>" by (rule floor_mono)
  then have lo: "\<lfloor>r\<rfloor> - 1 \<le> \<lfloor>r * (1 - 1 / 2 ^ 51)\<rfloor>" by simp
  from split_index_bounds(1,2)[OF assms(1,2), of n] lo hi
  show ?thesis unfolding r_def by linarith
qed

text \<open>
  The float result is not always the floor of the exact product: the float 0.1 is
  greater than one tenth, so that \<open>10 * (1 - f)\<close> is less than 9, and yet
  \<open>int(10 * (1. - 0.1))\<close> is 9.
\<close>

lemma split_index_rounding_example:
  "split_index 10 (round_binary64 (1 / 10)) = 9
   \<and> \<lfloor>10 * (1 - round_binary64 (1 / 10))\<rfloor> = 8"
  by code_simp

text \<open>
  C4: with no validation data and a split fraction \<open>f\<close> strictly between 0 and 1,
  \<open>fit\<close> computes \<open>split = int(N * (1. - f))\<close> in float arithmetic: the difference
  \<open>1. - f\<close> is rounded, the product of the float \<open>N\<close> with it is rounded, and the result
  is truncated. The split point is not negative and lies within the relative distance
  \<open>2 ^ -51\<close> of the exact product \<open>N * (1 - f)\<close>; for fewer than \<open>2 ^ 51\<close> samples it
  is at most \<open>N\<close> and differs from the floor of the exact product by at most one, the
  training data has \<open>split\<close> rows and the validation data the other \<open>N - split\<close>.
  \<open>fit\<close> trains on the first \<open>split\<close> rows of \<open>x\<close> and \<open>y\<close> and validates on the
  rows from \<open>split\<close> on: the call is the same as fitting the head with the tail given as
  validation data. For \<open>f\<close> outside the open interval nothing is split off and there is
  no validation data. The float 0.2 on 10 samples gives \<open>split = 8\<close>.
\<close>

theorem validation_split_tail:
  "(0 < f \<and> f < 1 \<longrightarrow>
      split_index (size0 x) f =
        \<lfloor>round_binary64 (round_binary64 (of_nat (size0 x)) * round_binary64 (1 - f))\<rfloor>
    \<and> \<lfloor>of_nat (size0 x) * (1 - f) * (1 - 1 / 2 ^ 51)\<rfloor> \<le> split_index (size0 x) f
    \<and> split_index (size0 x) f \<le> \<lfloor>of_nat (size0 x) * (1 - f) * (1 + 1 / 2 ^ 51)\<rfloor>
    \<and> 0 \<le> split_index (size0 x) f
    \<and> (size0 x < 2 ^ 51 \<longrightarrow>
          split_index (size0 x) f \<le> int (size0 x)
        \<and> \<bar>split_index (size0 x) f - \<lfloor>of_nat (size0 x) * (1 - f)\<rfloor>\<bar> \<le> 1
        \<and> size0 (x\<lparr>rows := take (nat (split_index (size0 x) f)) (rows x)\<rparr>)
            = nat (split_index (size0 x) f)
        \<and> size0 (x\<lparr>rows := drop (nat (split_index (size0 x) f)) (rows x)\<rparr>)
            = size0 x - nat (split_index (size0 x) f))
    \<and> prepare_validation x y f None =
        (x\<lparr>rows := take (nat (split_index (size0 x) f)) (rows x)\<rparr>,
         y\<lparr>rows := take (nat (split_index (size0 x) f)) (rows y)\<rparr>,
         Some (x\<lparr>rows := drop (nat (split_index (size0 x) f)) (rows x)\<rparr>),
         Some (y\<lparr>rows := drop (nat (split_index (size0 x) f)) (rows y)\<rparr>))
    \<and> fit env x y b epochs f None sh ie seed ms s =
        fit env (x\<lparr>rows := take (nat (split_index (size0 x) f)) (rows x)\<rparr>)
          (y\<lparr>rows := take (nat (split_index (size0 x) f)) (rows y)\<rparr>) b epochs f
          (Some (Some (x\<lparr>rows := drop (nat (split_index (size0 x) f)) (rows x)\<rparr>),
                 Some (y\<lparr>rows := drop (nat (split_index (size0 x) f)) (rows y)\<rparr>)))
          sh ie seed ms s)
   \<and> (\<not> (0 < f \<and> f < 1) \<longrightarrow>
        prepare_validation x y f None = (x, y, None, None)
      \<and> fit env x y b epochs f None sh ie seed ms s =
          fit env x y b epochs f (Some (None, None)) sh ie seed ms s)
   \<and> split_index 10 (round_binary64 (1 / 5)) = 8"
proof (intro conjI impI)
  assume f: "0 < f \<and> f < 1"
  then have f1: "0 < f" and f2: "f < 1" by simp_all
  note b = split_index_bounds[OF f1 f2, of "size0 x"]
  have "0 \<le> fmul (float_of_int (int (size0 x))) (fsub 1 f)"
    by (rule split_float_bounds(3)[OF f1 f2])
  then show "split_index (size0 x) f =
        \<lfloor>round_binary64 (round_binary64 (of_nat (size0 x)) * round_binary64 (1 - f))\<rfloor>"
    by (simp add: split_index_def int_of_float_def fmul_def fsub_def float_of_int_def)
  show "\<lfloor>of_nat (size0 x) * (1 - f) * (1 - 1 / 2 ^ 51)\<rfloor> \<le> split_index (size0 x) f"
    by (rule b(1))
  show "split_index (size0 x) f \<le> \<lfloor>of_nat (size0 x) * (1 - f) * (1 + 1 / 2 ^ 51)\<rfloor>"
    by (rule b(2))
  show nn: "0 \<le> split_index (size0 x) f" by (rule b(3))
  from f nn show pv: "prepare_validation x y f None =
        (x\<lparr>rows := take (nat (split_index (size0 x) f)) (rows x)\<rparr>,
         y\<lparr>rows := take (nat (split_index (size0 x) f)) (rows y)\<rparr>,
         Some (x\<lparr>rows := drop (nat (split_index (size0 x) f)) (rows x)\<rparr>),
         Some (y\<lparr>rows := drop (nat (split_index (size0 x) f)) (rows y)\<rparr>))"
    by (simp add: prepare_validation_def slice_to_nonneg slice_from_nonneg Let_def)
  show "fit env x y b epochs f None sh ie seed ms s =
        fit env (x\<lparr>rows := take (nat (split_index (size0 x) f)) (rows x)\<rparr>)
          (y\<lparr>rows := take (nat (split_index (size0 x) f)) (rows y)\<rparr>) b epochs f
          (Some (Some (x\<lparr>rows := drop (nat (split_index (size0 x) f)) (rows x)\<rparr>),
                 Some (y\<lparr>rows := drop (nat (split_index (size0 x) f)) (rows y)\<rparr>)))
          sh ie seed ms s"
    by (subst fit_prepared) (simp add: pv)
  {
    assume n: "size0 x < 2 ^ 51"
    show le: "split_index (size0 x) f \<le> int (size0 x)" using n by (rule b(4))
    show "\<bar>split_index (size0 x) f - \<lfloor>of_nat (size0 x) * (1 - f)\<rfloor>\<bar> \<le> 1"
      using f1 f2 n by (rule split_index_near_floor)
    from le nn have k: "nat (split_index (size0 x) f) \<le> length (rows x)"
      by (simp add: size0_def)
    show "size0 (x\<lparr>rows := take (nat (split_index (size0 x) f)) (rows x)\<rparr>)
            = nat (split_index (size0 x) f)"
      using k by (simp add: size0_def)
    show "size0 (x\<lparr>rows := drop (nat (split_index (size0 x) f)) (rows x)\<rparr>)
            = size0 x - nat (split_index (size0 x) f)"
      by (simp add: size0_def)
  }
next
  assume nf: "\<not> (0 < f \<and> f < 1)"
  then show pv: "prepare_validation x y f None = (x, y, None, None)"
    by (auto simp: prepare_validation_def)
  show "fit env x y b epochs f None sh ie seed ms s =
          fit env x y b epochs f (Some (None, None)) sh ie seed ms s"
    by (subst fit_prepared) (simp add: pv)
next
  show "split_index 10 (round_binary64 (1 / 5)) = 8" by code_simp
qed

text \<open>Ten samples and the float 0.2: eight training rows, the last two for validation.\<close>

theorem validation_split_tail_witness:
  "0 < round_binary64 (1 / 5) \<and> round_binary64 (1 / 5) < 1
   \<and> size0 demo_x10 < 2 ^ 51
   \<and> split_index (size0 demo_x10) (round_binary64 (1 / 5)) = 8
   \<and> \<bar>8 - \<lfloor>of_nat (size0 demo_x10) * (1 - round_binary64 (1 / 5))\<rfloor>\<bar> \<le> (1 :: int)
   \<and> prepare_validation demo_x10 demo_x10 (round_binary64 (1 / 5)) None =
       (\<lparr>dtype = Float32, trailing = [1], rows = [[0], [1], [2], [3], [4], [5], [6], [7]]\<rparr>,
        \<lparr>dtype = Float32, trailing = [1], rows = [[0], [1], [2], [3], [4], [5], [6], [7]]\<rparr>,
        Some \<lparr>dtype = Float32, trailing = [1], rows = [[8], [9]]\<rparr>,
        Some \<lparr>dtype = Float32, trailing = [1], rows = [[8], [9]]\<rparr>)"
proof -
  have f: "0 < round_binary64 (1 / 5) \<and> round_binary64 (1 / 5) < 1" by code_simp
  have n: "size0 demo_x10 < 2 ^ 51" by (simp add: demo_x10_def size0_def)
  have k: "split_index (size0 demo_x10) (round_binary64 (1 / 5)) = 8" by code_simp
  have tk: "demo_x10\<lparr>rows := take (nat 8) (rows demo_x10)\<rparr> =
            \<lparr>dtype = Float32, trailing = [1], rows = [[0], [1], [2], [3], [4], [5], [6], [7]]\<rparr>" by code_simp
  have dr: "demo_x10\<lparr>rows := drop (nat 8) (rows demo_x10)\<rparr> =
            \<lparr>dtype = Float32, trailing = [1], rows = [[8], [9]]\<rparr>" by code_simp
  note t = validation_split_tail[of "round_binary64 (1 / 5)" demo_x10 demo_x10,
      THEN conjunct1, rule_format, OF f]
  note rest = t[THEN conjunct2, THEN conjunct2, THEN conjunct2, THEN conjunct2]
  from rest[THEN conjunct1, rule_format, OF n]
  have "\<bar>split_index (size0 demo_x10) (round_binary64 (1 / 5))
             - \<lfloor>of_nat (size0 demo_x10) * (1 - round_binary64 (1 / 5))\<rfloor>\<bar> \<le> 1"
    by (rule conjunct1[OF conjunct2])
  then have d: "\<bar>8 - \<lfloor>of_nat (size0 demo_x10) * (1 - round_binary64 (1 / 5))\<rfloor>\<bar> \<le> (1 :: int)"
    unfolding k .
  have "prepare_validation demo_x10 demo_x10 (round_binary64 (1 / 5)) None =
        (demo_x10\<lparr>rows := take (nat (split_index (size0 demo_x10) (round_binary64 (1 / 5)))) (rows demo_x10)\<rparr>,
         demo_x10\<lparr>rows := take (nat (split_index (size0 demo_x10) (round_binary64 (1 / 5)))) (rows demo_x10)\<rparr>,
         Some (demo_x10\<lparr>rows := drop (nat (split_index (size0 demo_x10) (round_binary64 (1 / 5)))) (rows demo_x10)\<rparr>),
         Some (demo_x10\<lparr>rows := drop (nat (split_index (size0 demo_x10) (round_binary64 (1 / 5)))) (rows demo_x10)\<rparr>))"
    by (rule rest[THEN conjunct2, THEN conjunct1])
  then have pv: "prepare_validation demo_x10 demo_x10 (round_binary64 (1 / 5)) None =
       (\<lparr>dtype = Float32, trailing = [1], rows = [[0], [1], [2], [3], [4], [5], [6], [7]]\<rparr>,
        \<lparr>dtype = Float32, trailing = [1], rows = [[0], [1], [2], [3], [4], [5], [6], [7]]\<rparr>,
        Some \<lparr>dtype = Float32, trailing = [1], rows = [[8], [9]]\<rparr>,
        Some \<lparr>dtype = Float32, trailing = [1], rows = [[8], [9]]\<rparr>)"
    unfolding k tk dr .
  from f n k d pv show ?thesis by (intro conjI) simp_all
qed

text \<open>
  C5: when validation data is given, \<open>x\<close> and \<open>y\<close> are left whole and the validation
  data is the given one, whatever the split fraction: \<open>fit\<close> behaves as with a fraction of
  zero. A tail is split off only when no validation data is given and the fraction lies
  strictly between 0 and 1.
\<close>

theorem validation_sources_exclusive:
  "prepare_validation x y f (Some (val_x, val_y)) = (x, y, val_x, val_y)
   \<and> fit env x y b epochs f (Some vd) sh ie seed ms s =
       fit env x y b epochs 0 (Some vd) sh ie seed ms s
   \<and> prepare_validation x y f None =
       (if 0 < f \<and> f < 1
        then (slice_to x (split_index (size0 x) f), slice_to y (split_index (size0 x) f),
              Some (slice_from x (split_index (size0 x) f)),
              Some (slice_from y (split_index (size0 x) f)))
        else (x, y, None, None))"
  by (auto simp: prepare_validation_def fit_def Let_def)

lemma make_batches_zero: "make_batches 0 b = []"
  by (cases b) (simp_all add: make_batches_def)

text \<open>
  C7: on an input of zero samples \<open>predict\<close> runs no forward pass and raises
  \<open>UnboundLocalError\<close> at \<open>return y_pred\<close>, for every module, batch size and state.
\<close>

theorem predict_zero_samples:
  "predict env (x\<lparr>rows := []\<rparr>) b s = Inl UnboundLocalError"
  by (simp add: predict_def size0_def make_batches_zero bindE_def)

section \<open>Properties of fit\<close>






lemma seed_generators_positive:
  "0 < k \<Longrightarrow> seed_generators env (Some k) (s\<lparr>np_rng := g\<rparr>) = seed_generators env (Some k) s"
  by (simp add: seed_generators_def)

lemma seed_generators_rng:
  "0 < k \<Longrightarrow> seed_generators env (Some k) s = Inr s0 \<Longrightarrow> np_random_seed env k = Inr (np_rng s0)"
  by (auto simp: seed_generators_def bindE_Inr_iff collab_Inr_iff)

text \<open>
  C8, as the code has it: for a seed greater than zero the result of \<open>fit\<close> (logs, final
  state and the whole history of batches) does not depend on the state numpy's generator
  was in before the call; and two calls with that seed on the same data that both
  return train on the same batches in every epoch, whatever state the module and the
  generator were in before each call. A negative seed leaves both generators as they
  were.
\<close>

theorem fit_seed_reproducible:
  fixes env :: "('w, 'g, 'e) env"
  shows "(0 < k \<longrightarrow>
      fit env x y b epochs vs vd sh ie (Some k) ms (s\<lparr>np_rng := g1\<rparr>) =
      fit env x y b epochs vs vd sh ie (Some k) ms (s\<lparr>np_rng := g2\<rparr>))
   \<and> (0 < k \<and> 0 < b
        \<and> fit env x y b epochs vs vd sh ie (Some k) ms s1 = Inr (logs1, s1')
        \<and> fit env x y b epochs vs vd sh ie (Some k) ms s2 = Inr (logs2, s2') \<longrightarrow>
        (\<forall>t. ie \<le> t \<and> t < epochs \<longrightarrow>
           train_batches_of t (drop (length (calls s1)) (calls s1')) =
           train_batches_of t (drop (length (calls s2)) (calls s2'))))
   \<and> (k < 0 \<longrightarrow> seed_generators env (Some k) s = Inr s)"
proof (intro conjI impI allI)
  assume k: "0 < k"
  show "fit env x y b epochs vs vd sh ie (Some k) ms (s\<lparr>np_rng := g1\<rparr>) =
        fit env x y b epochs vs vd sh ie (Some k) ms (s\<lparr>np_rng := g2\<rparr>)"
    unfolding fit_def seed_generators_positive[OF k] ..
next
  assume "k < 0"
  then show "seed_generators env (Some k) s = Inr s" by (simp add: seed_generators_def)
next
  fix t
  assume h: "0 < k \<and> 0 < b
        \<and> fit env x y b epochs vs vd sh ie (Some k) ms s1 = Inr (logs1, s1')
        \<and> fit env x y b epochs vs vd sh ie (Some k) ms s2 = Inr (logs2, s2')"
    and t: "ie \<le> t \<and> t < epochs"
  let ?n = "size0 (fst (prepare_validation x y vs vd))"
  from h have k: "0 < k" and b: "0 < b"
    and f1: "fit env x y b epochs vs vd sh ie (Some k) ms s1 = Inr (logs1, s1')"
    and f2: "fit env x y b epochs vs vd sh ie (Some k) ms s2 = Inr (logs2, s2')"
    by simp_all
  from fit_events[OF f1 b] obtain a1 evs1 where
    1: "seed_generators env (Some k) s1 = Inr a1" "calls s1' = calls s1 @ evs1"
       "\<forall>t. ie \<le> t \<and> t < epochs \<longrightarrow> train_batches_of t evs1 =
           map (\<lambda>(a, e). slice (shuffle_orders env sh (nat (epochs - ie)) (np_rng a1)
                  [0 ..< ?n] ! nat (t - ie)) a e) (make_batches ?n b)"
    by (elim conjE exE) (rule that, assumption+)
  from fit_events[OF f2 b] obtain a2 evs2 where
    2: "seed_generators env (Some k) s2 = Inr a2" "calls s2' = calls s2 @ evs2"
       "\<forall>t. ie \<le> t \<and> t < epochs \<longrightarrow> train_batches_of t evs2 =
           map (\<lambda>(a, e). slice (shuffle_orders env sh (nat (epochs - ie)) (np_rng a2)
                  [0 ..< ?n] ! nat (t - ie)) a e) (make_batches ?n b)"
    by (elim conjE exE) (rule that, assumption+)
  have "Inr (np_rng a1) = (Inr (np_rng a2) :: 'e + 'g)"
    using seed_generators_rng[OF k 1(1)] seed_generators_rng[OF k 2(1)] by simp
  then have rng: "np_rng a1 = np_rng a2" by simp
  have "train_batches_of t evs1 = train_batches_of t evs2"
    using 1(3) 2(3) t unfolding rng by simp
  moreover have "drop (length (calls s1)) (calls s1') = evs1" using 1(2) by simp
  moreover have "drop (length (calls s2)) (calls s2') = evs2" using 2(2) by simp
  ultimately show "train_batches_of t (drop (length (calls s1)) (calls s1')) =
           train_batches_of t (drop (length (calls s2)) (calls s2'))"
    by simp
qed

text \<open>
  Seed 1 from two different generator states, and seed -1.
\<close>

theorem fit_seed_reproducible_witness:
  "(0 :: int) < 1
   \<and> fit demo_env demo_x demo_x 2 2 0 None True 0 (Some 1) [] (demo_state\<lparr>np_rng := 0\<rparr>) =
       fit demo_env demo_x demo_x 2 2 0 None True 0 (Some 1) [] (demo_state\<lparr>np_rng := 5\<rparr>)
   \<and> (-1 :: int) < 0
   \<and> seed_generators demo_env (Some (-1)) demo_state = Inr demo_state"
  using fit_seed_reproducible[where k = 1 and env = demo_env and x = demo_x and y = demo_x
      and b = 2 and epochs = 2 and vs = 0 and vd = None and sh = True and ie = 0
      and ms = "[]" and s = demo_state and ?g1.0 = 0 and ?g2.0 = 5]
    fit_seed_reproducible[where k = "-1" and env = demo_env and s = demo_state]
  by simp

text \<open>
  With seed -1, and with seed 0, the same call from two generator states trains on
  different batches.
\<close>

theorem fit_seed_ignored_counterexample:
  "map_sum id (\<lambda>(logs, s). train_batches_of 0 (calls s))
     (fit demo_env demo_x demo_x 2 1 0 None True 0 (Some (-1)) [] (demo_state\<lparr>np_rng := 0\<rparr>)) =
     Inr [[1, 2], [0]]
   \<and> map_sum id (\<lambda>(logs, s). train_batches_of 0 (calls s))
     (fit demo_env demo_x demo_x 2 1 0 None True 0 (Some (-1)) [] (demo_state\<lparr>np_rng := 1\<rparr>)) =
     Inr [[2, 0], [1]]
   \<and> map_sum id (\<lambda>(logs, s). train_batches_of 0 (calls s))
     (fit demo_env demo_x demo_x 2 1 0 None True 0 (Some 0) [] (demo_state\<lparr>np_rng := 0\<rparr>)) =
     Inr [[1, 2], [0]]
   \<and> map_sum id (\<lambda>(logs, s). train_batches_of 0 (calls s))
     (fit demo_env demo_x demo_x 2 1 0 None True 0 (Some 0) [] (demo_state\<lparr>np_rng := 1\<rparr>)) =
     Inr [[2, 0], [1]]"
  by code_simp

text \<open>
  C9, as the code has it: when \<open>fit\<close> returns, with a positive batch size, it returns
  \<open>epochs - initial_epoch\<close> logs (none when that is negative); every gradient step it took
  belongs to an epoch from \<open>initial_epoch\<close> up to \<open>epochs - 1\<close>, and each of these epochs
  took exactly one step per batch; every log has a \<open>train_loss\<close> entry provided the
  training set is not empty.
\<close>

theorem fit_logs_per_epoch:
  fixes env :: "('w, 'g, 'e) env"
  assumes "fit env x y b epochs vs vd sh ie seed ms s = Inr (logs, s')" and "0 < b"
  shows "length logs = nat (epochs - ie)
     \<and> (ie \<le> epochs \<longrightarrow> int (length logs) = epochs - ie)
     \<and> (0 < size0 (fst (prepare_validation x y vs vd)) \<longrightarrow>
          list_all (\<lambda>lg. map_of lg ''train_loss'' \<noteq> None) logs)
     \<and> (\<forall>ev\<in>set (drop (length (calls s)) (calls s')).
          is_TrainStep ev \<longrightarrow> ie \<le> ev_epoch ev \<and> ev_epoch ev < epochs)
     \<and> (\<forall>t. ie \<le> t \<and> t < epochs \<longrightarrow>
          length (train_batches_of t (drop (length (calls s)) (calls s'))) =
          length (make_batches (size0 (fst (prepare_validation x y vs vd))) b))"
proof -
  from fit_events[OF assms] obtain s0 evs where
    sg: "seed_generators env seed s = Inr s0" and
    r: "calls s' = calls s @ evs"
       "length logs = nat (epochs - ie)"
       "0 < size0 (fst (prepare_validation x y vs vd)) \<longrightarrow>
          list_all (\<lambda>lg. map_of lg ''train_loss'' \<noteq> None) logs"
       "\<forall>ev\<in>set evs. is_TrainStep ev \<longrightarrow> ie \<le> ev_epoch ev \<and> ev_epoch ev < epochs"
       "\<forall>t. ie \<le> t \<and> t < epochs \<longrightarrow> train_batches_of t evs =
           map (\<lambda>(a, e). slice (shuffle_orders env sh (nat (epochs - ie)) (np_rng s0)
                  [0 ..< size0 (fst (prepare_validation x y vs vd))] ! nat (t - ie)) a e)
             (make_batches (size0 (fst (prepare_validation x y vs vd))) b)"
    by (elim conjE exE) (rule that, assumption+)
  have new: "drop (length (calls s)) (calls s') = evs" using r(1) by simp
  have len: "\<forall>t. ie \<le> t \<and> t < epochs \<longrightarrow>
          length (train_batches_of t evs) =
          length (make_batches (size0 (fst (prepare_validation x y vs vd))) b)"
  proof (intro allI impI)
    fix t assume "ie \<le> t \<and> t < epochs"
    with r(5) have "train_batches_of t evs =
           map (\<lambda>(a, e). slice (shuffle_orders env sh (nat (epochs - ie)) (np_rng s0)
                  [0 ..< size0 (fst (prepare_validation x y vs vd))] ! nat (t - ie)) a e)
             (make_batches (size0 (fst (prepare_validation x y vs vd))) b)"
      by blast
    then show "length (train_batches_of t evs) =
          length (make_batches (size0 (fst (prepare_validation x y vs vd))) b)"
      by simp
  qed
  have "ie \<le> epochs \<longrightarrow> int (length logs) = epochs - ie" using r(2) by simp
  with r(2,3,4) len show ?thesis unfolding new by blast
qed

text \<open>
  Resuming at epoch 1 of 3: two logs, gradient steps in epochs 1 and 2 only.
\<close>

theorem fit_logs_per_epoch_witness:
  "fit demo_env demo_x demo_x 2 3 0 None True 1 (Some 1) [] demo_state =
     Inr ([[(''train_loss'', 6004799503160661 / 18014398509481984)],
           [(''train_loss'', 6004799503160661 / 18014398509481984)]],
          \<lparr>training = True, world = 4, np_rng = 3,
             calls = [TrainStep 1 True [2, 0] (1 / 2), TrainStep 1 True [1] (1 / 2),
                      TrainStep 2 True [2, 0] (1 / 2), TrainStep 2 True [1] (1 / 2)]\<rparr>)
   \<and> length [[(''train_loss'', 6004799503160661 / 18014398509481984 :: rat)],
             [(''train_loss'', 6004799503160661 / 18014398509481984)]] = nat (3 - 1)"
proof -
  have run: "fit demo_env demo_x demo_x 2 3 0 None True 1 (Some 1) [] demo_state =
     Inr ([[(''train_loss'', 6004799503160661 / 18014398509481984)],
           [(''train_loss'', 6004799503160661 / 18014398509481984)]],
          \<lparr>training = True, world = 4, np_rng = 3,
             calls = [TrainStep 1 True [2, 0] (1 / 2), TrainStep 1 True [1] (1 / 2),
                      TrainStep 2 True [2, 0] (1 / 2), TrainStep 2 True [1] (1 / 2)]\<rparr>)"
    by code_simp
  have b: "(0 :: nat) < 2" by simp
  from fit_logs_per_epoch[OF run b] run show ?thesis by blast
qed

text \<open>
  One epoch on an empty training set returns one log, which has no \<open>train_loss\<close> entry.
\<close>

theorem fit_empty_training_set_counterexample:
  "map_sum id (\<lambda>(logs, s). map (\<lambda>lg. map_of lg ''train_loss'') logs)
     (fit demo_env demo_empty demo_empty 2 1 0 None True 0 None [] demo_state) = Inr [None]"
  by code_simp

text \<open>
  C10: when \<open>fit\<close> returns and metrics were supplied, a gradient step ran its forward
  pass in training mode exactly when it belongs to the first epoch; after
  at least one epoch the module is left in evaluation mode; and \<open>predict\<close> always leaves
  the module in evaluation mode.
\<close>

theorem fit_eval_mode_after_first_epoch:
  fixes env :: "('w, 'g, 'e) env"
  assumes "fit env x y b epochs vs vd sh ie seed ms s = Inr (logs, s')"
    and "0 < b" and "ms \<noteq> []"
  shows "(\<forall>ev\<in>set (drop (length (calls s)) (calls s')).
            is_TrainStep ev \<longrightarrow> ev_mode ev = (ev_epoch ev = ie))
       \<and> (ie < epochs \<longrightarrow> \<not> training s')
       \<and> (\<forall>x1 s1 r s2. predict env x1 b s1 = Inr (r, s2) \<longrightarrow> \<not> training s2)"
proof -
  from fit_events[OF assms(1,2)] obtain s0 evs where
    sg: "seed_generators env seed s = Inr s0" and
    r: "calls s' = calls s @ evs"
       "ms \<noteq> [] \<longrightarrow> (\<forall>ev\<in>set evs. is_TrainStep ev \<longrightarrow> ev_mode ev = (ev_epoch ev = ie))"
       "ms \<noteq> [] \<longrightarrow> ie < epochs \<longrightarrow> \<not> training s'"
    by (elim conjE exE) (rule that, assumption+)
  have new: "drop (length (calls s)) (calls s') = evs" using r(1) by simp
  have p: "\<forall>x1 s1 r s2. predict env x1 b s1 = Inr (r, s2) \<longrightarrow> \<not> training s2"
    using predict_Inr[OF _ assms(2)] by blast
  from r(2,3) assms(3) p show ?thesis unfolding new by blast
qed

text \<open>
  Two epochs with one metric: the gradient steps of the second epoch run in evaluation
  mode.
\<close>

theorem fit_eval_mode_after_first_epoch_witness:
  "fit demo_env demo_x demo_x 2 2 0 None True 0 (Some 1) [(''m'', \<lambda>a b. Inr 3)] demo_state =
     Inr ([[(''train_loss'', 6004799503160661 / 18014398509481984), (''train_m'', 3)],
           [(''train_loss'', 6004799503160661 / 18014398509481984), (''train_m'', 3)]],
          \<lparr>training = False, world = 4, np_rng = 3,
             calls = [TrainStep 0 True [2, 0] (1 / 2), TrainStep 0 True [1] (1 / 2),
                      PredictStep False [0, 1] \<lparr>dtype = Float32, trailing = [1], rows = [[1], [2]]\<rparr>,
                      PredictStep False [2] \<lparr>dtype = Float32, trailing = [1], rows = [[3]]\<rparr>,
                      TrainStep 1 False [2, 0] (1 / 2), TrainStep 1 False [1] (1 / 2),
                      PredictStep False [0, 1] \<lparr>dtype = Float32, trailing = [1], rows = [[1], [2]]\<rparr>,
                      PredictStep False [2] \<lparr>dtype = Float32, trailing = [1], rows = [[3]]\<rparr>]\<rparr>)
   \<and> ev_mode (TrainStep 1 False [2, 0] (1 / 2)) = (ev_epoch (TrainStep 1 False [2, 0] (1 / 2)) = 0)"
proof -
  have run: "fit demo_env demo_x demo_x 2 2 0 None True 0 (Some 1) [(''m'', \<lambda>a b. Inr 3)] demo_state =
     Inr ([[(''train_loss'', 6004799503160661 / 18014398509481984), (''train_m'', 3)],
           [(''train_loss'', 6004799503160661 / 18014398509481984), (''train_m'', 3)]],
          \<lparr>training = False, world = 4, np_rng = 3,
             calls = [TrainStep 0 True [2, 0] (1 / 2), TrainStep 0 True [1] (1 / 2),
                      PredictStep False [0, 1] \<lparr>dtype = Float32, trailing = [1], rows = [[1], [2]]\<rparr>,
                      PredictStep False [2] \<lparr>dtype = Float32, trailing = [1], rows = [[3]]\<rparr>,
                      TrainStep 1 False [2, 0] (1 / 2), TrainStep 1 False [1] (1 / 2),
                      PredictStep False [0, 1] \<lparr>dtype = Float32, trailing = [1], rows = [[1], [2]]\<rparr>,
                      PredictStep False [2] \<lparr>dtype = Float32, trailing = [1], rows = [[3]]\<rparr>]\<rparr>)"
    by code_simp
  have b: "(0 :: nat) < 2" and ms: "[(''m'', \<lambda>a b. Inr 3 :: string + rat)] \<noteq> []" by simp_all
  from fit_eval_mode_after_first_epoch[OF run b ms]
  have "ev_mode (TrainStep 1 False [2, 0] (1 / 2)) = (ev_epoch (TrainStep 1 False [2, 0] (1 / 2)) = 0)"
    by (simp add: demo_state_def)
  with run show ?thesis by blast
qed

section \<open>Runs that return\<close>

text \<open>
  Without metrics, \<open>fit\<close> returns whenever no collaborator fails, the shuffle permutes
  its argument, the batch size is positive and \<open>y\<close> has a row for every row of \<open>x\<close>.
\<close>

lemma set_slice_subset: "set (slice xs a e) \<subseteq> set xs"
  by (auto simp: slice_def dest: in_set_takeD in_set_dropD)

lemma index_select_Inr:
  "\<forall>i\<in>set idxs. i < size0 x \<Longrightarrow> \<exists>r. index_select x idxs = (Inr r :: 'e error + tensor)"
  by (simp add: index_select_def list_all_iff)

lemma train_batch_returns:
  fixes env :: "('w, 'g, 'e) env"
  assumes ok: "\<forall>w. \<exists>r. zero_grad env w = Inr r" "\<forall>m w xb. \<exists>r. forward env m w xb = Inr r"
      "\<forall>w p yb. \<exists>r. loss env w p yb = Inr r" "\<forall>w. \<exists>r. backward env w = Inr r"
      "\<forall>w. \<exists>r. step env w = Inr r"
    and idx: "\<forall>i\<in>set idxs. i < size0 x \<and> i < size0 y"
    and ae: "a < e" and n0: "0 \<le> n0"
  shows "\<exists>n1 l1 lg1 s1. train_batch env x y t idxs (a, e) (n0, l0, lg0) s = Inr ((n1, l1, lg1), s1)
           \<and> 0 \<le> n1"
proof -
  let ?bi = "slice idxs a e"
  have sub: "\<forall>i\<in>set ?bi. i < size0 x \<and> i < size0 y" using idx set_slice_subset[of idxs a e] by auto
  have "\<exists>xb. index_select x ?bi = (Inr xb :: 'e error + tensor)"
    by (rule index_select_Inr) (simp add: sub)
  then obtain xb where xb: "index_select x ?bi = (Inr xb :: 'e error + tensor)" ..
  have "\<exists>yb. index_select y ?bi = (Inr yb :: 'e error + tensor)"
    by (rule index_select_Inr) (simp add: sub)
  then obtain yb where yb: "index_select y ?bi = (Inr yb :: 'e error + tensor)" ..
  obtain w1 where w1: "zero_grad env (world s) = Inr w1" using ok(1) by blast
  obtain r2 where "forward env (training s) w1 xb = Inr r2" using ok(2) by blast
  then obtain p w2 where w2: "forward env (training s) w1 xb = Inr (p, w2)" by (cases r2) simp
  obtain r3 where "loss env w2 p yb = Inr r3" using ok(3) by blast
  then obtain bl w3 where w3: "loss env w2 p yb = Inr (bl, w3)" by (cases r3) simp
  obtain w4 where w4: "backward env w3 = Inr w4" using ok(4) by blast
  obtain w5 where w5: "step env w4 = Inr w5" using ok(5) by blast
  have "n0 + (int e - int a) \<noteq> 0" "0 \<le> n0 + (int e - int a)" using ae n0 by simp_all
  then show ?thesis
    by (simp add: xb yb w1 w2 w3 w4 w5 bindE_def collab_def Let_def)
qed


lemma run_batches_returns:
  fixes env :: "('w, 'g, 'e) env"
  assumes ok: "\<forall>w. \<exists>r. zero_grad env w = Inr r" "\<forall>m w xb. \<exists>r. forward env m w xb = Inr r"
      "\<forall>w p yb. \<exists>r. loss env w p yb = Inr r" "\<forall>w. \<exists>r. backward env w = Inr r"
      "\<forall>w. \<exists>r. step env w = Inr r"
    and idx: "\<forall>i\<in>set idxs. i < size0 x \<and> i < size0 y"
  shows "list_all (\<lambda>(a, e). a < e) bs \<Longrightarrow> 0 \<le> n0 \<Longrightarrow>
         \<exists>r s1. run_batches env x y t idxs bs (n0, l0, lg0) s = Inr (r, s1)"
proof (induction bs arbitrary: n0 l0 lg0 s)
  case Nil
  then show ?case by simp
next
  case (Cons b0 bs)
  obtain a e where b0: "b0 = (a, e)" by (cases b0)
  from Cons.prems have ae: "a < e" and rest: "list_all (\<lambda>(a, e). a < e) bs" by (simp_all add: b0)
  from train_batch_returns[OF ok idx ae Cons.prems(2)] obtain n1 l1 lg1 s1 where
    tb: "train_batch env x y t idxs (a, e) (n0, l0, lg0) s = Inr ((n1, l1, lg1), s1)"
    and n1: "0 \<le> n1"
    by blast
  from Cons.IH[OF rest n1] obtain r s2 where
    "run_batches env x y t idxs bs (n1, l1, lg1) s1 = Inr (r, s2)" by blast
  then show ?case by (cases r) (simp add: b0 tb del: train_batch.simps)
qed

lemma make_batches_nonempty_ranges:
  "0 < b \<Longrightarrow> list_all (\<lambda>(a, e). a < e) (make_batches n b)"
  using make_batches_bounds[of b n] by (auto simp: list_all_iff)

lemma fit_epoch_returns:
  fixes env :: "('w, 'g, 'e) env"
  assumes ok: "\<forall>w. \<exists>r. zero_grad env w = Inr r" "\<forall>m w xb. \<exists>r. forward env m w xb = Inr r"
      "\<forall>w p yb. \<exists>r. loss env w p yb = Inr r" "\<forall>w. \<exists>r. backward env w = Inr r"
      "\<forall>w. \<exists>r. step env w = Inr r"
    and perm: "\<forall>g xs. mset (fst (np_random_shuffle env g xs)) = mset xs"
    and idx: "\<forall>i\<in>set idxs. i < size0 x \<and> i < size0 y"
    and b: "0 < b"
  shows "\<exists>idxs1 lg s1. fit_epoch env x y val_x val_y b sh [] t idxs s = Inr ((idxs1, lg), s1)
           \<and> set idxs1 = set idxs"
proof -
  define idxs1 where "idxs1 = (if sh then fst (np_random_shuffle env (np_rng s) idxs) else idxs)"
  define g where "g = (if sh then snd (np_random_shuffle env (np_rng s) idxs) else np_rng s)"
  have sh: "(if sh then np_random_shuffle env (np_rng s) idxs else (idxs, np_rng s)) = (idxs1, g)"
    by (simp add: idxs1_def g_def)
  have "mset idxs1 = mset idxs" using perm by (simp add: idxs1_def)
  then have st: "set idxs1 = set idxs" by (rule mset_eq_setD)
  then have idx1: "\<forall>i\<in>set idxs1. i < size0 x \<and> i < size0 y" using idx by simp
  have z: "(0 :: int) \<le> 0" by simp
  from run_batches_returns[OF ok idx1 make_batches_nonempty_ranges[OF b] z,
      where t = t and ?l0.0 = 0 and ?lg0.0 = "[]" and s = "s\<lparr>np_rng := g\<rparr>" and n1 = "size0 x"]
  obtain r s1 where
    rb: "run_batches env x y t idxs1 (make_batches (size0 x) b) (0, 0, []) (s\<lparr>np_rng := g\<rparr>)
           = Inr (r, s1)"
    by blast
  obtain n_run epoch_loss lg where r: "r = (n_run, epoch_loss, lg)" by (cases r)
  have "fit_epoch env x y val_x val_y b sh [] t idxs s = Inr ((idxs1, lg), s1)"
    unfolding fit_epoch_def sh by (simp add: rb r bindE_def run_metrics_def)
  with st show ?thesis by blast
qed

lemma fit_epochs_returns:
  fixes env :: "('w, 'g, 'e) env"
  assumes ok: "\<forall>w. \<exists>r. zero_grad env w = Inr r" "\<forall>m w xb. \<exists>r. forward env m w xb = Inr r"
      "\<forall>w p yb. \<exists>r. loss env w p yb = Inr r" "\<forall>w. \<exists>r. backward env w = Inr r"
      "\<forall>w. \<exists>r. step env w = Inr r"
    and perm: "\<forall>g xs. mset (fst (np_random_shuffle env g xs)) = mset xs"
    and b: "0 < b"
  shows "\<forall>i\<in>set idxs. i < size0 x \<and> i < size0 y \<Longrightarrow>
         \<exists>logs1 s1. fit_epochs env x y val_x val_y b sh [] ts idxs logs s = Inr (logs1, s1)"
proof (induction ts arbitrary: idxs logs s)
  case Nil
  then show ?case by simp
next
  case (Cons t ts)
  from fit_epoch_returns[OF ok perm Cons.prems b] obtain idxs1 lg s1 where
    ep: "fit_epoch env x y val_x val_y b sh [] t idxs s = Inr ((idxs1, lg), s1)"
    and st: "set idxs1 = set idxs"
    by blast
  from st Cons.prems have "\<forall>i\<in>set idxs1. i < size0 x \<and> i < size0 y" by simp
  from Cons.IH[OF this] obtain logs1 s2 where
    "fit_epochs env x y val_x val_y b sh [] ts idxs1 (logs @ [lg]) s1 = Inr (logs1, s2)"
    by blast
  then show ?case by (simp add: ep)
qed

lemma prepare_validation_sizes:
  assumes "size0 x \<le> size0 y"
    and "prepare_validation x y vs vd = (x1, y1, val_x, val_y)"
  shows "size0 x1 \<le> size0 y1"
  using assms
  by (auto simp: prepare_validation_def Let_def slice_to_def slice_pos_def size0_def
           split: option.splits if_splits)


lemma seed_generators_returns:
  assumes "\<forall>k. \<exists>g. np_random_seed env k = Inr g"
    and "\<forall>k w. \<exists>r. torch_manual_seed env k w = Inr r"
  shows "\<exists>s0. seed_generators env seed s = Inr s0"
proof (cases seed)
  case None
  then show ?thesis by (simp add: seed_generators_def)
next
  case (Some k)
  obtain g where g: "np_random_seed env k = Inr g" using assms(1) by blast
  obtain w where w: "torch_manual_seed env k (world s) = Inr w" using assms(2) by blast
  show ?thesis by (simp add: Some seed_generators_def g w bindE_def collab_def)
qed

lemma fit_returns:
  fixes env :: "('w, 'g, 'e) env"
  assumes ok: "\<forall>w. \<exists>r. zero_grad env w = Inr r" "\<forall>m w xb. \<exists>r. forward env m w xb = Inr r"
      "\<forall>w p yb. \<exists>r. loss env w p yb = Inr r" "\<forall>w. \<exists>r. backward env w = Inr r"
      "\<forall>w. \<exists>r. step env w = Inr r"
    and perm: "\<forall>g xs. mset (fst (np_random_shuffle env g xs)) = mset xs"
    and seeds: "\<forall>k. \<exists>g. np_random_seed env k = Inr g"
      "\<forall>k w. \<exists>r. torch_manual_seed env k w = Inr r"
    and opt: "\<forall>w. \<exists>r. optimizer env w = Inr r"
    and b: "0 < b" and xy: "size0 x \<le> size0 y"
  shows "\<exists>logs s1. fit env x y b epochs vs vd sh ie seed [] s = Inr (logs, s1)"
proof -
  obtain s0 where s0: "seed_generators env seed s = Inr s0"
    using seed_generators_returns[OF seeds] by blast
  obtain x1 y1 val_x val_y where pv: "prepare_validation x y vs vd = (x1, y1, val_x, val_y)"
    by (cases "prepare_validation x y vs vd") auto
  have sz: "size0 x1 \<le> size0 y1" using prepare_validation_sizes[OF xy pv] .
  obtain w where w: "optimizer env (world s0) = Inr w" using opt by blast
  have idx: "\<forall>i\<in>set [0 ..< size0 x1]. i < size0 x1 \<and> i < size0 y1" using sz by simp
  from fit_epochs_returns[OF ok perm b idx] obtain logs s1 where
    "fit_epochs env x1 y1 val_x val_y b sh [] [ie .. epochs - 1] [0 ..< size0 x1] []
       (s0\<lparr>world := w, training := True\<rparr>) = Inr (logs, s1)"
    by blast
  then show ?thesis by (simp add: fit_def s0 pv w bindE_def collab_def)
qed

end
